theory Spec2Isabelle
  imports Complex_Main "HOL-Library.Log_Nat"
begin

section \<open>JavaScript numbers\<close>

text \<open>
  \<^verbatim>\<open>src/App.tsx\<close> computes with JavaScript numbers, which are IEEE 754 binary64 values.
  A finite number is modelled by the rational it denotes, \<open>NaN\<close> and the two infinities are
  constructors of their own. The two zeros are not told apart: no operation of the program
  that is modelled here divides by a zero or prints one with its sign. The type holds every
  rational; the operations below yield binary64 values when given binary64 values.

  Every arithmetic result is rounded to the nearest binary64 value, ties to the value with
  an even significand, by \<open>fl\<close>: the exponent of the binade is \<open>ilog2\<close> (for a
  positive \<open>a\<close>, \<open>ilog b a\<close> is the integer \<open>e\<close> with \<open>b powi e \<le> a < b powi (e + 1)\<close>), never below
  \<open>-1022\<close> (subnormal numbers share the smallest quantum \<open>2 powi -1074\<close>), and a result
  that rounds to \<open>2 powi 1024\<close> or more is an infinity.
\<close>

datatype jsnum = NaN | PInf | NInf | Fin rat

definition ilog :: "nat \<Rightarrow> rat \<Rightarrow> int" where
  "ilog b a = (let (p, q) = quotient_of a;
                   e = int (floorlog b (nat p)) - int (floorlog b (nat q))
               in if of_nat b powi e \<le> a then e else e - 1)"

definition ilog2 :: "rat \<Rightarrow> int" where
  "ilog2 a = ilog 2 a"

definition round_even :: "rat \<Rightarrow> int" where
  "round_even x = (let f = \<lfloor>x\<rfloor>; r = x - of_int f
                   in if r < 1 / 2 then f
                      else if 1 / 2 < r then f + 1
                      else if even f then f else f + 1)"

definition fl :: "rat \<Rightarrow> jsnum" where
  "fl x = (if x = 0 then Fin 0
           else let a = \<bar>x\<bar>;
                    e = max (ilog2 a) (- 1022);
                    q = 2 powi (e - 52);
                    y = of_int (round_even (a / q)) * q
                in if 2 powi 1024 \<le> y then (if 0 < x then PInf else NInf)
                   else Fin (sgn x * y))"

text \<open>
  For the statements about rounding: the spacing of the binary64 values around a positive
  \<open>a\<close>, which is the \<open>q\<close> of \<open>fl\<close>.
\<close>

definition quantum :: "rat \<Rightarrow> rat" where
  "quantum a = 2 powi (max (ilog2 a) (- 1022) - 52)"

text \<open>\<^verbatim>\<open>!x\<close> on a number: zero and \<open>NaN\<close> are the falsy numbers.\<close>

definition falsy :: "jsnum \<Rightarrow> bool" where
  "falsy x = (x = NaN \<or> x = Fin 0)"

text \<open>\<^verbatim>\<open>isNaN(x)\<close>.\<close>

definition isNaN :: "jsnum \<Rightarrow> bool" where
  "isNaN x = (x = NaN)"

text \<open>\<^verbatim>\<open>x || NaN\<close> on a number \<open>x\<close>.\<close>

definition or_NaN :: "jsnum \<Rightarrow> jsnum" where
  "or_NaN x = (if falsy x then NaN else x)"

text \<open>Unary minus, \<^verbatim>\<open>a / b\<close>, \<^verbatim>\<open>a * b\<close> and \<^verbatim>\<open>a >= b\<close>.\<close>

fun js_neg :: "jsnum \<Rightarrow> jsnum" where
  "js_neg NaN = NaN"
| "js_neg PInf = NInf"
| "js_neg NInf = PInf"
| "js_neg (Fin x) = Fin (- x)"

fun js_div :: "jsnum \<Rightarrow> jsnum \<Rightarrow> jsnum" where
  "js_div NaN b = NaN"
| "js_div a NaN = NaN"
| "js_div (Fin x) (Fin y) =
     (if y = 0 then (if x = 0 then NaN else if 0 < x then PInf else NInf)
      else fl (x / y))"
| "js_div (Fin x) b = Fin 0"
| "js_div a (Fin y) = (if 0 \<le> y then a else js_neg a)"
| "js_div a b = NaN"

fun js_mul :: "jsnum \<Rightarrow> jsnum \<Rightarrow> jsnum" where
  "js_mul NaN b = NaN"
| "js_mul a NaN = NaN"
| "js_mul (Fin x) (Fin y) = fl (x * y)"
| "js_mul (Fin x) b = (if x = 0 then NaN else if 0 < x then b else js_neg b)"
| "js_mul a (Fin y) = (if y = 0 then NaN else if 0 < y then a else js_neg a)"
| "js_mul a b = (if a = b then PInf else NInf)"

fun js_ge :: "jsnum \<Rightarrow> jsnum \<Rightarrow> bool" where
  "js_ge NaN b = False"
| "js_ge a NaN = False"
| "js_ge PInf b = True"
| "js_ge a NInf = True"
| "js_ge (Fin x) (Fin y) = (y \<le> x)"
| "js_ge a b = False"

text \<open>\<^verbatim>\<open>Math.floor\<close>, \<^verbatim>\<open>Math.round\<close> (ties towards \<open>+\<infinity>\<close>) and the binary \<^verbatim>\<open>Math.max\<close>.
  A binary64 value of magnitude \<open>2 ^ 52\<close> or more is an integer, so the results are
  binary64 values and need no rounding.\<close>

fun Math_floor :: "jsnum \<Rightarrow> jsnum" where
  "Math_floor (Fin x) = Fin (of_int \<lfloor>x\<rfloor>)"
| "Math_floor a = a"

fun Math_round :: "jsnum \<Rightarrow> jsnum" where
  "Math_round (Fin x) = Fin (of_int \<lfloor>x + 1 / 2\<rfloor>)"
| "Math_round a = a"

fun Math_max :: "jsnum \<Rightarrow> jsnum \<Rightarrow> jsnum" where
  "Math_max NaN b = NaN"
| "Math_max a NaN = NaN"
| "Math_max a b = (if js_ge a b then a else b)"

section \<open>Strings and string to number conversion\<close>

text \<open>
  A JavaScript string is a sequence of UTF-16 code units, here natural numbers; \<open>lit\<close>
  turns an ASCII literal into one.
\<close>

type_synonym jsstring = "nat list"

definition lit :: "string \<Rightarrow> jsstring" where
  "lit s = map of_char s"

text \<open>The class \<^verbatim>\<open>\\d\<close> of a regular expression without the unicode flag is \<^verbatim>\<open>[0-9]\<close>.\<close>

definition is_digit :: "nat \<Rightarrow> bool" where
  "is_digit c = (48 \<le> c \<and> c \<le> 57)"

text \<open>The value of a digit in a radix up to 16, and of a non-empty digit sequence.\<close>

definition digit_of :: "nat \<Rightarrow> nat option" where
  "digit_of c = (if 48 \<le> c \<and> c \<le> 57 then Some (c - 48)
                 else if 97 \<le> c \<and> c \<le> 102 then Some (c - 87)
                 else if 65 \<le> c \<and> c \<le> 70 then Some (c - 55)
                 else None)"

definition is_digit_in :: "nat \<Rightarrow> nat \<Rightarrow> bool" where
  "is_digit_in b c = (case digit_of c of Some d \<Rightarrow> d < b | None \<Rightarrow> False)"

definition digits_val :: "nat \<Rightarrow> jsstring \<Rightarrow> nat" where
  "digits_val b ds = foldl (\<lambda>a c. b * a + the (digit_of c)) 0 ds"

definition radix_val :: "nat \<Rightarrow> jsstring \<Rightarrow> nat option" where
  "radix_val b ds = (if ds \<noteq> [] \<and> list_all (is_digit_in b) ds
                     then Some (digits_val b ds) else None)"

text \<open>
  \<^verbatim>\<open>Number(s)\<close> on a string follows the grammar \<^verbatim>\<open>StringNumericLiteral\<close> of ECMAScript:
  white space and line terminators are trimmed from both ends, the empty string is \<open>0\<close>,
  a binary, octal or hexadecimal literal has no sign, a decimal literal has an optional
  sign, then \<^verbatim>\<open>Infinity\<close> or digits with an optional fraction and an optional exponent;
  every other string is \<open>NaN\<close>. The mathematical value of the literal is rounded to
  binary64. (ECMAScript lets an engine round a decimal literal of more than 20 significant
  digits from its first 20 digits; the model rounds the exact value, as the common engines
  do.)
\<close>

definition is_white :: "nat \<Rightarrow> bool" where
  "is_white c = (c \<in> {9, 10, 11, 12, 13, 32, 160, 5760, 8232, 8233, 8239, 8287, 12288, 65279}
                 \<or> (8192 \<le> c \<and> c \<le> 8202))"

definition trim :: "jsstring \<Rightarrow> jsstring" where
  "trim s = rev (dropWhile is_white (rev (dropWhile is_white s)))"

fun non_decimal :: "jsstring \<Rightarrow> nat option" where
  "non_decimal (z # p # ds) =
     (if z \<noteq> 48 then None
      else if p = 98 \<or> p = 66 then radix_val 2 ds
      else if p = 111 \<or> p = 79 then radix_val 8 ds
      else if p = 120 \<or> p = 88 then radix_val 16 ds
      else None)"
| "non_decimal s = None"

definition signed_integer :: "jsstring \<Rightarrow> int option" where
  "signed_integer r =
     (case r of
        [] \<Rightarrow> None
      | c # ds \<Rightarrow>
          if c = 43 then map_option int (radix_val 10 ds)
          else if c = 45 then map_option (\<lambda>n. - int n) (radix_val 10 ds)
          else map_option int (radix_val 10 r))"

definition exponent_part :: "jsstring \<Rightarrow> int option" where
  "exponent_part r =
     (case r of
        [] \<Rightarrow> Some 0
      | c # r' \<Rightarrow> if c = 101 \<or> c = 69 then signed_integer r' else None)"

definition decimal_mv :: "jsstring \<Rightarrow> jsstring \<Rightarrow> int \<Rightarrow> rat" where
  "decimal_mv ip fp e =
     (of_nat (digits_val 10 ip) + of_nat (digits_val 10 fp) / 10 ^ length fp) * 10 powi e"

definition unsigned_decimal :: "jsstring \<Rightarrow> rat option" where
  "unsigned_decimal t =
     (let ip = takeWhile is_digit t; r = dropWhile is_digit t
      in case r of
           [] \<Rightarrow> if ip = [] then None else Some (decimal_mv ip [] 0)
         | c # r' \<Rightarrow>
             if c = 46 then
               (let fp = takeWhile is_digit r'; r'' = dropWhile is_digit r'
                in if ip = [] \<and> fp = [] then None
                   else map_option (decimal_mv ip fp) (exponent_part r''))
             else if ip = [] then None
             else map_option (decimal_mv ip []) (exponent_part r))"

definition unsigned_literal :: "jsstring \<Rightarrow> jsnum option" where
  "unsigned_literal t =
     (if t = lit ''Infinity'' then Some PInf else map_option fl (unsigned_decimal t))"

definition decimal_literal :: "jsstring \<Rightarrow> jsnum option" where
  "decimal_literal t =
     (case t of
        [] \<Rightarrow> None
      | c # r \<Rightarrow>
          if c = 43 then unsigned_literal r
          else if c = 45 then map_option js_neg (unsigned_literal r)
          else unsigned_literal t)"

definition js_Number :: "jsstring \<Rightarrow> jsnum" where
  "js_Number s =
     (let t = trim s
      in if t = [] then Fin 0
         else case non_decimal t of
                Some n \<Rightarrow> fl (of_nat n)
              | None \<Rightarrow> (case decimal_literal t of Some v \<Rightarrow> v | None \<Rightarrow> NaN))"

section \<open>Number to string conversion\<close>

text \<open>
  \<^verbatim>\<open>String(x)\<close> on a number is \<^verbatim>\<open>Number::toString\<close> in radix 10. For a positive finite
  \<open>x\<close> it takes integers \<open>k \<ge> 1\<close>, \<open>n\<close> and \<open>s\<close> with \<open>10 ^ (k - 1) \<le> s < 10 ^ k\<close> such that
  \<open>s * 10 powi (n - k)\<close> rounds to \<open>x\<close>, with \<open>k\<close> as small as possible and, for that \<open>k\<close>,
  the product as close to \<open>x\<close> as possible (\<open>s\<close> even on a tie); 17 digits always suffice
  for a binary64 value. The closest product of a given \<open>k\<close> is next to \<open>x\<close>, below it or
  above it, so those two are the candidates.
\<close>

fun digits10 :: "nat \<Rightarrow> jsstring" where
  "digits10 n = (if n < 10 then [48 + n] else digits10 (n div 10) @ [48 + n mod 10])"

declare digits10.simps [simp del]

definition candidates :: "rat \<Rightarrow> nat \<Rightarrow> (int \<times> nat) list" where
  "candidates x k =
     [(n, s). n \<leftarrow> [ilog 10 x + 1, ilog 10 x + 2],
              s \<leftarrow> [nat \<lfloor>x / 10 powi (n - int k)\<rfloor>, nat \<lfloor>x / 10 powi (n - int k)\<rfloor> + 1],
              10 ^ (k - 1) \<le> s \<and> s < 10 ^ k \<and> fl (of_nat s * 10 powi (n - int k)) = Fin x]"

definition closer :: "rat \<Rightarrow> nat \<Rightarrow> int \<times> nat \<Rightarrow> int \<times> nat \<Rightarrow> int \<times> nat" where
  "closer x k c c' =
     (let err = (\<lambda>(n, s). \<bar>of_nat s * 10 powi (n - int k) - x\<bar>)
      in if err c' < err c \<or> (err c' = err c \<and> even (snd c')) then c' else c)"

definition shortest :: "rat \<Rightarrow> nat \<times> int \<times> nat" where
  "shortest x =
     (case [(k, foldl (closer x k) c cs). k \<leftarrow> [1..<18], c # cs \<leftarrow> [candidates x k]] of
        r # _ \<Rightarrow> r
      | [] \<Rightarrow> (1, ilog 10 x + 1, 0))"

definition toString_pos :: "rat \<Rightarrow> jsstring" where
  "toString_pos x =
     (let (k, n, s) = shortest x; ds = digits10 s
      in if int k \<le> n \<and> n \<le> 21 then ds @ replicate (nat (n - int k)) 48
         else if 0 < n \<and> n \<le> 21 then take (nat n) ds @ [46] @ drop (nat n) ds
         else if - 6 < n \<and> n \<le> 0 then [48, 46] @ replicate (nat (- n)) 48 @ ds
         else let e = n - 1;
                  sg = (if e < 0 then 45 else 43);
                  es = digits10 (nat \<bar>e\<bar>)
              in if k = 1 then ds @ [101, sg] @ es
                 else take 1 ds @ [46] @ drop 1 ds @ [101, sg] @ es)"

fun js_String :: "jsnum \<Rightarrow> jsstring" where
  "js_String NaN = lit ''NaN''"
| "js_String PInf = lit ''Infinity''"
| "js_String NInf = lit ''-Infinity''"
| "js_String (Fin x) =
     (if x = 0 then lit ''0''
      else if x < 0 then 45 # toString_pos (- x)
      else toString_pos x)"

section \<open>The declaration check of \<^verbatim>\<open>App\<close>\<close>

datatype Currency = SGD | AED | EUR

datatype Country = SG | AE | EU

record limit =
  label :: jsstring
  currency :: Currency
  amount :: jsnum

text \<open>\<^verbatim>\<open>LIMITS\<close>; the code unit 214 in the third label is the O-umlaut.\<close>

fun LIMITS :: "Country \<Rightarrow> limit" where
  "LIMITS SG = \<lparr>label = lit ''Singapur'', currency = SGD, amount = Fin 20000\<rparr>"
| "LIMITS AE = \<lparr>label = lit ''VAE (Abu Dhabi)'', currency = AED, amount = Fin 60000\<rparr>"
| "LIMITS EU = \<lparr>label = lit ''EU/'' @ [214] @ lit ''sterreich'', currency = EUR,
                 amount = Fin 10000\<rparr>"

text \<open>
  The component state: one field for each \<^verbatim>\<open>useState\<close>. The four text fields hold what
  the user typed (or what \<^verbatim>\<open>loadRates\<close> stored); a date is its time in milliseconds.
\<close>

record app_state =
  amountIDR :: jsstring
  idrPerSGD :: jsstring
  idrPerAED :: jsstring
  idrPerEUR :: jsstring
  showAll :: bool
  activeTab :: Country
  autoRates :: bool
  fetching :: bool
  fetchError :: "jsstring option"
  lastFetchedAt :: "nat option"

definition initial_state :: app_state where
  "initial_state =
     \<lparr>amountIDR = [], idrPerSGD = [], idrPerAED = [], idrPerEUR = [], showAll = True,
      activeTab = SG, autoRates = True, fetching = False, fetchError = None,
      lastFetchedAt = None\<rparr>"

text \<open>\<^verbatim>\<open>rates\<close>: each entry is \<^verbatim>\<open>Number(text) || NaN\<close>.\<close>

fun rates :: "app_state \<Rightarrow> Currency \<Rightarrow> jsnum" where
  "rates s SGD = or_NaN (js_Number (idrPerSGD s))"
| "rates s AED = or_NaN (js_Number (idrPerAED s))"
| "rates s EUR = or_NaN (js_Number (idrPerEUR s))"

text \<open>\<^verbatim>\<open>idr = Number(String(amountIDR).replace(/\D/g, ""))\<close>.\<close>

definition idr :: "app_state \<Rightarrow> jsnum" where
  "idr s = js_Number (filter is_digit (amountIDR s))"

record check_result =
  converted :: jsnum
  needsDecl :: bool
  maxBeforeDeclIDR :: jsnum

text \<open>\<^verbatim>\<open>check\<close>; \<open>None\<close> is its \<^verbatim>\<open>null\<close>.\<close>

definition check :: "app_state \<Rightarrow> Currency \<Rightarrow> jsnum \<Rightarrow> check_result option" where
  "check s limitCurrency limitAmount =
     (let rate = rates s limitCurrency
      in if falsy rate \<or> isNaN rate \<or> falsy (idr s) then None
         else let converted = js_div (idr s) rate;
                  needsDecl = js_ge converted limitAmount;
                  maxBeforeDeclIDR = Math_max (Fin 0) (Math_floor (js_mul limitAmount rate))
              in Some \<lparr>converted = converted, needsDecl = needsDecl,
                        maxBeforeDeclIDR = maxBeforeDeclIDR\<rparr>)"

fun results :: "app_state \<Rightarrow> Country \<Rightarrow> check_result option" where
  "results s SG = check s SGD (amount (LIMITS SG))"
| "results s AE = check s AED (amount (LIMITS AE))"
| "results s EU = check s EUR (amount (LIMITS EU))"

text \<open>For the statements about \<^verbatim>\<open>check\<close>: the text field that holds the rate of a currency.\<close>

fun rate_text :: "app_state \<Rightarrow> Currency \<Rightarrow> jsstring" where
  "rate_text s SGD = idrPerSGD s"
| "rate_text s AED = idrPerAED s"
| "rate_text s EUR = idrPerEUR s"

text \<open>
  Half the spacing of the binary64 values just below each limit: \<open>20000\<close> lies in the binade
  of \<open>2 ^ 14\<close>, \<open>60000\<close> in that of \<open>2 ^ 15\<close> and \<open>10000\<close> in that of \<open>2 ^ 13\<close>.
\<close>

fun half_ulp :: "Country \<Rightarrow> rat" where
  "half_ulp SG = 1 / 2 ^ 39"
| "half_ulp AE = 1 / 2 ^ 38"
| "half_ulp EU = 1 / 2 ^ 40"

text \<open>An example state: 240 000 000 IDR at 12 000 IDR for one SGD.\<close>

definition s0 :: app_state where
  "s0 = initial_state\<lparr>amountIDR := lit ''240000000'', idrPerSGD := lit ''12000''\<rparr>"

text \<open>
  More example states: an amount without a digit, a negative rate, rates that are no numbers
  or zero or missing, an amount at the limit of 20000 SGD for a rate with decimals, a rate
  whose product with that limit is an integer in decimal notation, and an amount above
  \<open>2 ^ 53\<close>.
\<close>

definition s_nodigits :: app_state where
  "s_nodigits = initial_state\<lparr>amountIDR := lit ''Rp -,.'', idrPerSGD := lit ''12000''\<rparr>"

definition s_negative :: app_state where
  "s_negative = initial_state\<lparr>amountIDR := lit ''100'', idrPerSGD := lit ''-5''\<rparr>"

definition s_words :: app_state where
  "s_words = initial_state\<lparr>amountIDR := lit ''100'', idrPerSGD := lit ''abc'', idrPerAED := lit ''0''\<rparr>"

definition s_edge :: app_state where
  "s_edge = initial_state\<lparr>amountIDR := lit ''76356400'', idrPerSGD := lit ''3817.82''\<rparr>"


definition s_large :: app_state where
  "s_large = initial_state\<lparr>amountIDR := lit ''9007199254740993''\<rparr>"

section \<open>The declaration check on untyped values\<close>

text \<open>
  The types of the source are erased before it runs. This section gives lines 31 to 52 of
  \<^verbatim>\<open>App\<close> once more, on the values of JavaScript and with the exceptions that the operations
  raise, so that the statement that no exception is raised has a content. The values are
  the primitive values (a \<^verbatim>\<open>Symbol\<close> without description, no \<^verbatim>\<open>BigInt\<close>) and the ordinary
  objects with own data properties, as object literals create them; of two properties with
  the same key the later one counts.
\<close>

datatype js_value = Undefined | Null | Bool bool | Num jsnum | Str jsstring | Symbol
  | Obj "(jsstring \<times> js_value) list"

datatype js_error = TypeError

text \<open>
  A step yields an exception (\<open>Inl\<close>) or a value (\<open>Inr\<close>); \<open>and_then\<close> runs the next step
  unless the first one raised.
\<close>

fun and_then :: "js_error + 'a \<Rightarrow> ('a \<Rightarrow> js_error + 'b) \<Rightarrow> js_error + 'b" where
  "and_then (Inl e) f = Inl e"
| "and_then (Inr v) f = f v"

text \<open>
  The conversions \<^verbatim>\<open>ToBoolean\<close>, \<^verbatim>\<open>ToNumber\<close> and \<^verbatim>\<open>ToString\<close>. A \<^verbatim>\<open>Symbol\<close> has no number
  and no string. An object is converted through its methods \<^verbatim>\<open>valueOf\<close> and \<^verbatim>\<open>toString\<close>:
  the inherited \<^verbatim>\<open>valueOf\<close> returns the object itself and the inherited \<^verbatim>\<open>toString\<close> the
  text \<^verbatim>\<open>[object Object]\<close>, which is no number; an own data property \<^verbatim>\<open>toString\<close> hides the
  inherited method, is not callable, and the conversion raises.
\<close>

fun ToBoolean :: "js_value \<Rightarrow> bool" where
  "ToBoolean Undefined = False"
| "ToBoolean Null = False"
| "ToBoolean (Bool b) = b"
| "ToBoolean (Num n) = (\<not> falsy n)"
| "ToBoolean (Str s) = (s \<noteq> [])"
| "ToBoolean Symbol = True"
| "ToBoolean (Obj kvs) = True"

fun ToNumber :: "js_value \<Rightarrow> js_error + jsnum" where
  "ToNumber Undefined = Inr NaN"
| "ToNumber Null = Inr (Fin 0)"
| "ToNumber (Bool b) = Inr (Fin (if b then 1 else 0))"
| "ToNumber (Num n) = Inr n"
| "ToNumber (Str s) = Inr (js_Number s)"
| "ToNumber Symbol = Inl TypeError"
| "ToNumber (Obj kvs) = (if lit ''toString'' \<in> fst ` set kvs then Inl TypeError else Inr NaN)"

fun ToString :: "js_value \<Rightarrow> js_error + jsstring" where
  "ToString Undefined = Inr (lit ''undefined'')"
| "ToString Null = Inr (lit ''null'')"
| "ToString (Bool b) = Inr (if b then lit ''true'' else lit ''false'')"
| "ToString (Num n) = Inr (js_String n)"
| "ToString (Str s) = Inr s"
| "ToString Symbol = Inl TypeError"
| "ToString (Obj kvs)
     = (if lit ''toString'' \<in> fst ` set kvs then Inl TypeError else Inr (lit ''[object Object]''))"

text \<open>
  The calls \<^verbatim>\<open>Number(v)\<close>, \<^verbatim>\<open>String(v)\<close> (which describes a \<^verbatim>\<open>Symbol\<close> instead of raising) and
  \<^verbatim>\<open>isNaN(v)\<close>.
\<close>

definition call_Number :: "js_value \<Rightarrow> js_error + js_value" where
  "call_Number v = and_then (ToNumber v) (\<lambda>n. Inr (Num n))"

fun call_String :: "js_value \<Rightarrow> js_error + js_value" where
  "call_String Symbol = Inr (Str (lit ''Symbol()''))"
| "call_String v = and_then (ToString v) (\<lambda>s. Inr (Str s))"

definition call_isNaN :: "js_value \<Rightarrow> js_error + bool" where
  "call_isNaN v = and_then (ToNumber v) (\<lambda>n. Inr (isNaN n))"

text \<open>
  The method call \<^verbatim>\<open>v.replace(/\D/g, "")\<close>. Reading a property of \<^verbatim>\<open>undefined\<close> or \<^verbatim>\<open>null\<close>
  raises; no other value than a string has a callable \<^verbatim>\<open>replace\<close>, and calling what is
  not a function raises.
\<close>

fun replace_non_digits :: "js_value \<Rightarrow> js_error + js_value" where
  "replace_non_digits (Str s) = Inr (Str (filter is_digit s))"
| "replace_non_digits v = Inl TypeError"

text \<open>
  The property read \<^verbatim>\<open>v[key]\<close> for a key that is no property of the prototypes (the code
  reads the keys \<^verbatim>\<open>SGD\<close>, \<^verbatim>\<open>AED\<close> and \<^verbatim>\<open>EUR\<close>), and \<^verbatim>\<open>a || b\<close> for a \<open>b\<close> without effects.
\<close>

fun Get :: "js_value \<Rightarrow> jsstring \<Rightarrow> js_error + js_value" where
  "Get Undefined key = Inl TypeError"
| "Get Null key = Inl TypeError"
| "Get (Obj kvs) key = Inr (case map_of (rev kvs) key of None \<Rightarrow> Undefined | Some v \<Rightarrow> v)"
| "Get v key = Inr Undefined"

definition or_else :: "js_value \<Rightarrow> js_value \<Rightarrow> js_value" where
  "or_else a b = (if ToBoolean a then a else b)"

text \<open>
  The operators \<^verbatim>\<open>a / b\<close> and \<^verbatim>\<open>a * b\<close>, which convert both operands to numbers, and
  \<^verbatim>\<open>c >= b\<close> for a number \<open>c\<close>, which converts \<open>b\<close> to a number.
\<close>

definition op_div :: "js_value \<Rightarrow> js_value \<Rightarrow> js_error + jsnum" where
  "op_div a b = and_then (ToNumber a) (\<lambda>x. and_then (ToNumber b) (\<lambda>y. Inr (js_div x y)))"

definition op_mul :: "js_value \<Rightarrow> js_value \<Rightarrow> js_error + jsnum" where
  "op_mul a b = and_then (ToNumber a) (\<lambda>x. and_then (ToNumber b) (\<lambda>y. Inr (js_mul x y)))"

definition op_ge :: "jsnum \<Rightarrow> js_value \<Rightarrow> js_error + bool" where
  "op_ge c b = and_then (ToNumber b) (\<lambda>y. Inr (js_ge c y))"

text \<open>The object \<^verbatim>\<open>rates\<close> and the number \<^verbatim>\<open>idr\<close>, from what the state holds.\<close>

fun currency_name :: "Currency \<Rightarrow> jsstring" where
  "currency_name SGD = lit ''SGD''"
| "currency_name AED = lit ''AED''"
| "currency_name EUR = lit ''EUR''"

definition rates_js :: "js_value \<Rightarrow> js_value \<Rightarrow> js_value \<Rightarrow> js_error + js_value" where
  "rates_js perSGD perAED perEUR =
     and_then (call_Number perSGD) (\<lambda>a.
     and_then (call_Number perAED) (\<lambda>b.
     and_then (call_Number perEUR) (\<lambda>c.
       Inr (Obj [(lit ''SGD'', or_else a (Num NaN)), (lit ''AED'', or_else b (Num NaN)),
                 (lit ''EUR'', or_else c (Num NaN))]))))"

definition idr_js :: "js_value \<Rightarrow> js_error + js_value" where
  "idr_js amount_text =
     and_then (call_String amount_text) (\<lambda>str.
     and_then (replace_non_digits str) (\<lambda>digits.
       call_Number digits))"

text \<open>
  \<^verbatim>\<open>check\<close>, with the operands of \<^verbatim>\<open>||\<close> evaluated from left to right and only as far as
  needed, and the object \<^verbatim>\<open>results\<close>.
\<close>

definition check_js :: "js_value \<Rightarrow> js_value \<Rightarrow> Currency \<Rightarrow> js_value \<Rightarrow> js_error + js_value" where
  "check_js rates_obj idr_num limitCurrency limitAmount =
     and_then (Get rates_obj (currency_name limitCurrency)) (\<lambda>rate.
       if \<not> ToBoolean rate then Inr Null
       else and_then (call_isNaN rate) (\<lambda>nan.
         if nan then Inr Null
         else if \<not> ToBoolean idr_num then Inr Null
         else and_then (op_div idr_num rate) (\<lambda>converted.
              and_then (op_ge converted limitAmount) (\<lambda>needsDecl.
              and_then (op_mul limitAmount rate) (\<lambda>product.
                Inr (Obj [(lit ''converted'', Num converted),
                          (lit ''needsDecl'', Bool needsDecl),
                          (lit ''maxBeforeDeclIDR'',
                             Num (Math_max (Fin 0) (Math_floor product)))]))))))"

definition results_js :: "js_value \<Rightarrow> js_value \<Rightarrow> js_value \<Rightarrow> js_value \<Rightarrow> js_error + js_value" where
  "results_js amount_text perSGD perAED perEUR =
     and_then (rates_js perSGD perAED perEUR) (\<lambda>rates_obj.
     and_then (idr_js amount_text) (\<lambda>idr_num.
     and_then (check_js rates_obj idr_num SGD (Num (amount (LIMITS SG)))) (\<lambda>sg.
     and_then (check_js rates_obj idr_num AED (Num (amount (LIMITS AE)))) (\<lambda>ae.
     and_then (check_js rates_obj idr_num EUR (Num (amount (LIMITS EU)))) (\<lambda>eu.
       Inr (Obj [(lit ''SG'', sg), (lit ''AE'', ae), (lit ''EU'', eu)]))))))"

text \<open>A result of the typed \<^verbatim>\<open>check\<close> as a value: \<^verbatim>\<open>null\<close>, or the object with the three fields.\<close>

fun result_value :: "check_result option \<Rightarrow> js_value" where
  "result_value None = Null"
| "result_value (Some r)
     = Obj [(lit ''converted'', Num (converted r)), (lit ''needsDecl'', Bool (needsDecl r)),
            (lit ''maxBeforeDeclIDR'', Num (maxBeforeDeclIDR r))]"

section \<open>Fetching the rates\<close>

text \<open>
  What \<^verbatim>\<open>JSON.parse\<close> can produce. The members of an object are kept in the order of the
  text; of two members with the same key the later one is the property.
\<close>

datatype json =
  JNull | JBool bool | JNum jsnum | JStr jsstring | JArr "json list" | JObj "(jsstring \<times> json) list"

text \<open>
  \<^verbatim>\<open>v?.key\<close> for the two keys of \<^verbatim>\<open>j?.rates?.IDR\<close>, with \<open>None\<close> for \<^verbatim>\<open>undefined\<close>: on
  \<^verbatim>\<open>undefined\<close> and \<^verbatim>\<open>null\<close> the chain yields \<^verbatim>\<open>undefined\<close>, an object yields its own
  property, and no boolean, number, string or array has a property of either name.
\<close>

fun get_member :: "jsstring \<Rightarrow> json option \<Rightarrow> json option" where
  "get_member key (Some (JObj kvs)) = map_of (rev kvs) key"
| "get_member key v = None"

text \<open>
  A promise is modelled by how it settles. A thrown error carries its \<^verbatim>\<open>message\<close>, if it
  has one. The promise of \<^verbatim>\<open>fetch\<close> rejects when no response arrives; with a response it
  resolves, whatever the HTTP status of the response is. A response carries that status
  (\<^verbatim>\<open>r.ok\<close> is true for the statuses 200 to 299) and the way \<^verbatim>\<open>r.json()\<close> settles.
  \<^verbatim>\<open>Promise.all\<close> rejects with the reason of the promise that rejects first in
  time: \<open>order\<close> lists the indices of the promises in the order in which they settle
  (indices it leaves out settle afterwards, in the order of the array).
\<close>

datatype thrown = Thrown (message: "jsstring option")

datatype 'a promise = Rejects thrown | Resolves 'a

datatype response = Response (status: nat) (json_body: "json promise")

definition ok :: "response \<Rightarrow> bool" where
  "ok r \<longleftrightarrow> 200 \<le> status r \<and> status r \<le> 299"

definition settle_seq :: "nat list \<Rightarrow> 'a promise list \<Rightarrow> 'a promise list" where
  "settle_seq order ps = map ((!) ps) (filter (\<lambda>i. i < length ps) (order @ [0..<length ps]))"

definition Promise_all :: "nat list \<Rightarrow> 'a promise list \<Rightarrow> 'a list promise" where
  "Promise_all order ps =
     (case [e. Rejects e \<leftarrow> settle_seq order ps] of
        e # _ \<Rightarrow> Rejects e
      | [] \<Rightarrow> Resolves [v. Resolves v \<leftarrow> ps])"

definition symbols :: "Currency list" where
  "symbols = [SGD, AED, EUR]"

text \<open>
  \<^verbatim>\<open>idrPer = j?.rates?.IDR\<close>, the \<^verbatim>\<open>forEach\<close> that fills \<^verbatim>\<open>map\<close> with the values whose
  \<^verbatim>\<open>typeof\<close> is \<^verbatim>\<open>"number"\<close>, and \<^verbatim>\<open>!map.SGD\<close> on an entry that may be missing.
\<close>

definition idrPer :: "json \<Rightarrow> json option" where
  "idrPer j = get_member (lit ''IDR'') (get_member (lit ''rates'') (Some j))"

definition collect :: "json list \<Rightarrow> (Currency \<rightharpoonup> jsnum)" where
  "collect jsons =
     foldl (\<lambda>m (j, cur). case idrPer j of Some (JNum v) \<Rightarrow> m(cur \<mapsto> v) | _ \<Rightarrow> m)
           Map.empty (zip jsons symbols)"

fun falsy_entry :: "jsnum option \<Rightarrow> bool" where
  "falsy_entry None = True"
| "falsy_entry (Some v) = falsy v"

text \<open>
  The two messages of \<^verbatim>\<open>loadRates\<close>. The first is the literal of \<^verbatim>\<open>new Error(...)\<close>, whose
  ninth code unit, 228, is the a-umlaut.
\<close>

definition incomplete_message :: jsstring where
  "incomplete_message = lit ''Unvollst'' @ [228] @ lit ''ndige Kurse''"

definition fallback_message :: jsstring where
  "fallback_message = lit ''Konnte Kurse nicht laden.''"

text \<open>
  The \<^verbatim>\<open>catch\<close> block, \<^verbatim>\<open>setFetchError(e?.message || "Konnte Kurse nicht laden.")\<close>: a missing
  message and the empty message are falsy.
\<close>

definition error_text :: "thrown \<Rightarrow> jsstring" where
  "error_text e =
     (case message e of
        None \<Rightarrow> fallback_message
      | Some m \<Rightarrow> if m = [] then fallback_message else m)"

definition catch_block :: "thrown \<Rightarrow> app_state \<Rightarrow> app_state" where
  "catch_block e s = s\<lparr>fetchError := Some (error_text e)\<rparr>"

text \<open>
  \<^verbatim>\<open>loadRates\<close>, run to completion from state \<open>s\<close>. \<open>fetch cur\<close> is how the request for
  \<open>cur\<close> settles, \<open>order1\<close> and \<open>order2\<close> are the orders in which the requests and the
  \<^verbatim>\<open>r.json()\<close> calls settle, \<open>now\<close> is the value of \<^verbatim>\<open>new Date()\<close>. The three setters of
  the rates are reached only when no entry of \<^verbatim>\<open>map\<close> is falsy, so \<open>the\<close> reads an entry
  that is present.
\<close>

definition loadRates ::
  "(Currency \<Rightarrow> response promise) \<Rightarrow> nat list \<Rightarrow> nat list \<Rightarrow> nat \<Rightarrow> app_state \<Rightarrow> app_state" where
  "loadRates fetch order1 order2 now s =
     (let s1 = s\<lparr>fetching := True, fetchError := None\<rparr>;
          s2 = (case Promise_all order1 (map fetch symbols) of
                  Rejects e \<Rightarrow> catch_block e s1
                | Resolves responses \<Rightarrow>
                    (case Promise_all order2 (map json_body responses) of
                       Rejects e \<Rightarrow> catch_block e s1
                     | Resolves jsons \<Rightarrow>
                         (let m = collect jsons
                          in if falsy_entry (m SGD) \<or> falsy_entry (m AED) \<or> falsy_entry (m EUR)
                             then catch_block (Thrown (Some incomplete_message)) s1
                             else s1\<lparr>idrPerSGD := js_String (Math_round (the (m SGD))),
                                     idrPerAED := js_String (Math_round (the (m AED))),
                                     idrPerEUR := js_String (Math_round (the (m EUR))),
                                     lastFetchedAt := Some now\<rparr>)))
      in s2\<lparr>fetching := False\<rparr>)"

text \<open>
  For the statements about \<^verbatim>\<open>loadRates\<close>: the reason with which a lookup rejects (the request
  itself or the reading of its body), and the numeric rate it delivers, if it does.
\<close>

fun rejection :: "response promise \<Rightarrow> thrown option" where
  "rejection (Rejects e) = Some e"
| "rejection (Resolves (Response st (Rejects e))) = Some e"
| "rejection (Resolves (Response st (Resolves j))) = None"

fun rate_in :: "json \<Rightarrow> jsnum option" where
  "rate_in j = (case idrPer j of Some (JNum v) \<Rightarrow> Some v | _ \<Rightarrow> None)"

fun rate_of :: "response promise \<Rightarrow> jsnum option" where
  "rate_of (Resolves (Response st (Resolves j))) = rate_in j"
| "rate_of p = None"

text \<open>The same lookup with another HTTP status on its response.\<close>

fun with_status :: "nat \<Rightarrow> response promise \<Rightarrow> response promise" where
  "with_status st (Rejects e) = Rejects e"
| "with_status st (Resolves r) = Resolves (Response st (json_body r))"

text \<open>
  Example lookups: a body with the member \<^verbatim>\<open>rates.IDR\<close> in a response with status 200, and
  some ways the network answers. In \<open>net_refused\<close> the server answers the request for AED
  with the status 500 and a body that holds a rate.
\<close>

definition body_with :: "json \<Rightarrow> json" where
  "body_with v = JObj [(lit ''success'', JBool True), (lit ''rates'', JObj [(lit ''IDR'', v)])]"

definition answers :: "json \<Rightarrow> response promise" where
  "answers v = Resolves (Response 200 (Resolves (body_with v)))"

fun net_ok :: "Currency \<Rightarrow> response promise" where
  "net_ok SGD = answers (JNum (Fin (23999 / 2)))"
| "net_ok AED = answers (JNum (Fin (16801 / 4)))"
| "net_ok EUR = answers (JNum (Fin 17000))"

fun net_down :: "Currency \<Rightarrow> response promise" where
  "net_down SGD = answers (JNum (Fin 15000))"
| "net_down AED = Rejects (Thrown (Some (lit ''Failed to fetch'')))"
| "net_down EUR = Rejects (Thrown None)"

fun net_garbled :: "Currency \<Rightarrow> response promise" where
  "net_garbled SGD = answers (JNum (Fin 15000))"
| "net_garbled AED = Resolves (Response 200 (Rejects (Thrown (Some (lit ''Unexpected token'')))))"
| "net_garbled EUR = answers (JNum (Fin 17000))"

fun net_zero :: "Currency \<Rightarrow> response promise" where
  "net_zero SGD = answers (JNum (Fin 0))"
| "net_zero AED = answers (JNum (Fin 4200))"
| "net_zero EUR = answers (JNum (Fin 17000))"

fun net_negative :: "Currency \<Rightarrow> response promise" where
  "net_negative SGD = answers (JNum (Fin (- 7 / 2)))"
| "net_negative AED = answers (JNum (Fin 4200))"
| "net_negative EUR = answers (JNum (Fin 17000))"

fun net_partial :: "Currency \<Rightarrow> response promise" where
  "net_partial SGD = answers (JNum (Fin 15000))"
| "net_partial AED = answers (JStr (lit ''4200''))"
| "net_partial EUR = answers (JNum (Fin 17000))"

fun net_refused :: "Currency \<Rightarrow> response promise" where
  "net_refused SGD = answers (JNum (Fin (23999 / 2)))"
| "net_refused AED = Resolves (Response 500 (Resolves (body_with (JNum (Fin (16801 / 4))))))"
| "net_refused EUR = answers (JNum (Fin 17000))"

section \<open>Facts about rounding\<close>

lemma ilog2_bounds:
  assumes "0 < a"
  shows "2 powi ilog2 a \<le> a \<and> a < 2 powi (ilog2 a + 1)"
proof -
  obtain p q where pq: "quotient_of a = (p, q)" by (cases "quotient_of a")
  have q: "0 < q" using pq by (rule quotient_of_denom_pos)
  have a: "a = of_int p / of_int q" using pq by (rule quotient_of_div)
  have p: "0 < p" using assms q a by (simp add: zero_less_divide_iff)
  define bp where "bp = bitlen p"
  define bq where "bq = bitlen q"
  have bp1: "1 \<le> bp" and bq1: "1 \<le> bq"
    using p q bitlen_eq_zero_iff[of p] bitlen_eq_zero_iff[of q] bitlen_nonneg[of p] bitlen_nonneg[of q]
    unfolding bp_def bq_def by linarith+
  have P: "(2::rat) powi (bp - 1) \<le> of_int p" "of_int p < (2::rat) powi bp"
  proof -
    have "2 ^ nat (bp - 1) \<le> p" "p < 2 ^ nat bp"
      using bitlen_bounds[OF p] unfolding bp_def by auto
    then have "(of_int (2 ^ nat (bp - 1)) :: rat) \<le> of_int p" "(of_int p :: rat) < of_int (2 ^ nat bp)"
      unfolding of_int_le_iff of_int_less_iff by auto
    then show "(2::rat) powi (bp - 1) \<le> of_int p" "of_int p < (2::rat) powi bp"
      using bp1 by (simp_all add: power_int_def)
  qed
  have Q: "(2::rat) powi (bq - 1) \<le> of_int q" "of_int q < (2::rat) powi bq"
  proof -
    have "2 ^ nat (bq - 1) \<le> q" "q < 2 ^ nat bq"
      using bitlen_bounds[OF q] unfolding bq_def by auto
    then have "(of_int (2 ^ nat (bq - 1)) :: rat) \<le> of_int q" "(of_int q :: rat) < of_int (2 ^ nat bq)"
      unfolding of_int_le_iff of_int_less_iff by auto
    then show "(2::rat) powi (bq - 1) \<le> of_int q" "of_int q < (2::rat) powi bq"
      using bq1 by (simp_all add: power_int_def)
  qed
  have qpos: "(0::rat) < of_int q" using q by simp
  have lo: "(2::rat) powi (bp - bq - 1) < a"
  proof -
    have "(2::rat) powi (bp - bq - 1) * of_int q < 2 powi (bp - bq - 1) * 2 powi bq"
      using Q(2) by (simp add: mult_strict_left_mono)
    also have "\<dots> = 2 powi (bp - 1)"
      by (simp flip: power_int_add)
    also have "\<dots> \<le> of_int p" by (rule P(1))
    finally show ?thesis using qpos by (simp add: a pos_less_divide_eq)
  qed
  have hi: "a < (2::rat) powi (bp - bq + 1)"
  proof -
    have "of_int p < (2::rat) powi bp" by (rule P(2))
    also have "\<dots> = 2 powi (bp - bq + 1) * 2 powi (bq - 1)"
      by (simp flip: power_int_add)
    also have "\<dots> \<le> 2 powi (bp - bq + 1) * of_int q"
      using Q(1) by (simp add: mult_left_mono)
    finally show ?thesis using qpos by (simp add: a pos_divide_less_eq)
  qed
  have "ilog2 a = (if 2 powi (bp - bq) \<le> a then bp - bq else bp - bq - 1)"
    by (simp add: ilog2_def ilog_def pq bp_def bq_def bitlen_def)
  then show ?thesis
    using lo hi by auto
qed

lemma ilog2_unique:
  assumes "0 < a" "2 powi e \<le> a" "a < 2 powi (e + 1)"
  shows "ilog2 a = e"
proof -
  have b: "2 powi ilog2 a \<le> a" "a < 2 powi (ilog2 a + 1)"
    using ilog2_bounds[OF assms(1)] by auto
  have "(2::rat) powi e < 2 powi (ilog2 a + 1)" using assms(2) b(2) by simp
  then have 1: "e < ilog2 a + 1"
    by (metis not_less power_int_increasing one_le_numeral)
  have "(2::rat) powi ilog2 a < 2 powi (e + 1)" using assms(3) b(1) by simp
  then have 2: "ilog2 a < e + 1"
    by (metis not_less power_int_increasing one_le_numeral)
  show ?thesis using 1 2 by simp
qed

lemma round_even_of_int: "round_even (of_int m) = m"
  by (simp add: round_even_def)

lemma round_even_nonneg: "0 \<le> x \<Longrightarrow> 0 \<le> round_even x"
  by (auto simp: round_even_def Let_def)

lemma fl_exact:
  assumes "x \<noteq> 0" and "\<bar>x\<bar> = of_int m * 2 powi (max (ilog2 \<bar>x\<bar>) (- 1022) - 52)"
    and "\<bar>x\<bar> < 2 powi 1024"
  shows "fl x = Fin x"
proof -
  define q :: rat where "q = 2 powi (max (ilog2 \<bar>x\<bar>) (- 1022) - 52)"
  have q: "0 < q" by (simp add: q_def zero_less_power_int)
  have "\<bar>x\<bar> / q = of_int m" using assms(2) q by (simp add: q_def[symmetric])
  then have y: "of_int (round_even (\<bar>x\<bar> / q)) * q = \<bar>x\<bar>"
    using assms(2) by (simp add: round_even_of_int q_def[symmetric])
  have "sgn x * \<bar>x\<bar> = x" by (rule sgn_mult_abs)
  then show ?thesis
    using assms(1,3) y unfolding fl_def Let_def q_def[symmetric] by (simp del: power_int_numeral)
qed

lemma fl_of_int:
  assumes "\<bar>n\<bar> \<le> 2 ^ 53"
  shows "fl (of_int n) = Fin (of_int n)"
proof (cases "n = 0")
  case True
  then show ?thesis by (simp add: fl_def)
next
  case False
  define a :: rat where "a = \<bar>of_int n\<bar>"
  have a1: "1 \<le> a" using False by (simp add: a_def flip: of_int_abs)
  have a2: "a \<le> 2 ^ 53" using assms unfolding a_def
    by (metis of_int_abs of_int_le_numeral_power_cancel_iff)
  have apos: "0 < a" using a1 by simp
  define e where "e = ilog2 a"
  have b: "2 powi e \<le> a" "a < 2 powi (e + 1)"
    using ilog2_bounds[OF apos] by (auto simp: e_def)
  have "(2::rat) powi 0 < 2 powi (e + 1)" using a1 b(2) by simp
  then have e0: "0 \<le> e"
    by (metis not_less power_int_increasing one_le_numeral zle_add1_eq_le linorder_not_le)
  have "(2::rat) powi e \<le> 2 powi 53" using a2 b(1) by simp
  then have e53: "e \<le> 53"
    by (metis not_less power_int_strict_increasing one_less_numeral_iff semiring_norm(76))
  have "\<exists>m. a = of_int m * 2 powi (e - 52)"
  proof (cases "e \<le> 52")
    case True
    have "a = of_int (\<bar>n\<bar> * 2 ^ nat (52 - e)) * 2 powi (e - 52)"
      using True by (simp add: a_def power_int_def field_simps flip: of_int_abs)
    then show ?thesis by blast
  next
    case False
    then have e: "e = 53" using e53 by simp
    then have "a = 2 ^ 53" using a2 b(1) by simp
    then have "a = of_int (2 ^ 52) * 2 powi (e - 52)" by (simp add: e)
    then show ?thesis by blast
  qed
  then obtain m where m: "a = of_int m * 2 powi (e - 52)" by blast
  have mx: "max e (- 1022) = e" using e0 by simp
  have "a < 2 powi 1024" using a2 by simp
  then show ?thesis
    using fl_exact[of "of_int n" m] False m unfolding a_def[symmetric] e_def[symmetric] mx
    by simp
qed


lemma fl_of_nat_cases: "fl (of_nat n) = PInf \<or> (\<exists>m::nat. fl (of_nat n) = Fin (of_nat m))"
proof (cases "n = 0")
  case True
  then have "fl (of_nat n) = Fin (of_nat 0)" by (simp add: fl_def)
  then show ?thesis by blast
next
  case False
  define a :: rat where "a = of_nat n"
  have a1: "1 \<le> a" using False by (simp add: a_def)
  have apos: "0 < a" using a1 by simp
  define e where "e = ilog2 a"
  have b: "2 powi e \<le> a" "a < 2 powi (e + 1)"
    using ilog2_bounds[OF apos] by (auto simp: e_def)
  have "(2::rat) powi 0 < 2 powi (e + 1)" using a1 b(2) by simp
  then have e0: "0 \<le> e"
    by (metis power_int_increasing one_le_numeral zle_add1_eq_le linorder_not_le)
  have mx: "max e (- 1022) = e" using e0 by simp
  show ?thesis
  proof (cases "e \<le> 52")
    case True
    have "(2::rat) powi (e + 1) \<le> 2 powi 53"
      using True by (intro power_int_increasing) auto
    then have "a \<le> 2 ^ 53" using b(2) by simp
    then have "int n \<le> 2 ^ 53" unfolding a_def
      by (metis of_int_of_nat_eq of_int_le_numeral_power_cancel_iff)
    then have "fl (of_int (int n)) = Fin (of_int (int n))" by (intro fl_of_int) simp
    then show ?thesis by auto
  next
    case False
    define r where "r = round_even (a / 2 powi (e - 52))"
    have r0: "0 \<le> r" unfolding r_def using apos by (intro round_even_nonneg) (simp add: zero_le_power_int)
    have "of_int r * (2::rat) powi (e - 52) = of_nat (nat r * 2 ^ nat (e - 52))"
      using False r0 by (simp add: power_int_def)
    moreover have "fl (of_nat n) = PInf \<or> fl (of_nat n) = Fin (of_int r * 2 powi (e - 52))"
      using apos unfolding fl_def Let_def a_def[symmetric] 
      by (simp add: e_def[symmetric] mx r_def del: power_int_numeral)
    ultimately show ?thesis by metis
  qed
qed

section \<open>Facts about the conversions\<close>

lemma digit_not_white: "is_digit c \<Longrightarrow> \<not> is_white c"
  by (auto simp: is_digit_def is_white_def)

lemma trim_digits:
  assumes "list_all is_digit ds"
  shows "trim ds = ds"
proof (cases ds rule: rev_cases)
  case Nil
  then show ?thesis by (simp add: trim_def)
next
  case (snoc ys y)
  then have "\<not> is_white y" using assms digit_not_white by simp
  moreover have "dropWhile is_white ds = ds"
    using assms digit_not_white by (cases ds) auto
  ultimately show ?thesis by (simp add: trim_def snoc)
qed

lemma non_decimal_digits:
  assumes "list_all is_digit ds"
  shows "non_decimal ds = None"
proof (cases ds)
  case Nil
  then show ?thesis by simp
next
  case (Cons z r)
  show ?thesis
  proof (cases r)
    case Nil
    then show ?thesis using Cons by simp
  next
    case (Cons p r')
    then have "is_digit p" using assms \<open>ds = z # r\<close> by simp
    then show ?thesis using Cons \<open>ds = z # r\<close> by (auto simp: is_digit_def)
  qed
qed

lemma js_Number_digits:
  assumes "list_all is_digit ds"
  shows "js_Number ds = fl (of_nat (digits_val 10 ds))"
proof (cases "ds = []")
  case True
  then show ?thesis by (simp add: js_Number_def trim_def digits_val_def fl_def)
next
  case False
  then obtain c r where ds: "ds = c # r" by (cases ds) auto
  have c: "is_digit c" using assms ds by simp
  have tw: "takeWhile is_digit ds = ds" "dropWhile is_digit ds = []"
    using assms by (simp_all add: list_all_iff)
  have "ds \<noteq> lit ''Infinity''"
    using c ds by (auto simp: lit_def is_digit_def)
  then have "unsigned_literal ds = Some (fl (of_nat (digits_val 10 ds)))"
    using False by (simp add: unsigned_literal_def unsigned_decimal_def tw decimal_mv_def digits_val_def)
  then have "decimal_literal ds = Some (fl (of_nat (digits_val 10 ds)))"
    using c ds by (auto simp: decimal_literal_def is_digit_def)
  then show ?thesis
    using False by (simp add: js_Number_def trim_digits[OF assms] non_decimal_digits[OF assms])
qed

lemma fl_numeral: "numeral k \<le> (2 ^ 53 :: int) \<Longrightarrow> fl (numeral k) = Fin (numeral k)"
  using fl_of_int[of "numeral k"] by simp

lemma fl_neg_numeral: "numeral k \<le> (2 ^ 53 :: int) \<Longrightarrow> fl (- numeral k) = Fin (- numeral k)"
  using fl_of_int[of "- numeral k"] by simp

lemmas parse_defs = js_Number_def trim_def is_white_def decimal_literal_def unsigned_literal_def
  unsigned_decimal_def decimal_mv_def exponent_part_def signed_integer_def radix_val_def
  digits_val_def digit_of_def is_digit_in_def is_digit_def lit_def

lemma fl_eval:
  assumes "x \<noteq> 0" "2 powi e \<le> \<bar>x\<bar>" "\<bar>x\<bar> < 2 powi (e + 1)"
  shows "fl x = (let q = 2 powi (max e (- 1022) - 52);
                     y = of_int (round_even (\<bar>x\<bar> / q)) * q
                 in if 2 powi 1024 \<le> y then (if 0 < x then PInf else NInf)
                    else Fin (sgn x * y))"
proof -
  have "ilog2 \<bar>x\<bar> = e" using assms by (intro ilog2_unique) auto
  then show ?thesis using assms(1) by (simp add: fl_def del: power_int_numeral)
qed

section \<open>Rounding error, monotonicity and thresholds\<close>

lemma round_even_ge_floor: "\<lfloor>z\<rfloor> \<le> round_even z"
  by (simp add: round_even_def Let_def)

lemma round_even_le_ceiling: "round_even z \<le> \<lceil>z\<rceil>"
proof -
  have "\<lfloor>z\<rfloor> + 1 \<le> \<lceil>z\<rceil>" if "z \<noteq> of_int \<lfloor>z\<rfloor>"
    using that by (metis ceiling_altdef order_refl)
  moreover have "z - of_int \<lfloor>z\<rfloor> = 0" if "z = of_int \<lfloor>z\<rfloor>" using that by simp
  ultimately show ?thesis
    unfolding round_even_def Let_def using floor_le_ceiling[of z]
    by (cases "z = of_int \<lfloor>z\<rfloor>") auto
qed

lemma round_even_ge_int:
  assumes "of_int m \<le> z"
  shows "m \<le> round_even z"
proof -
  have "m \<le> \<lfloor>z\<rfloor>" using assms by (simp add: le_floor_iff)
  then show ?thesis using round_even_ge_floor[of z] by linarith
qed

lemma round_even_le_int:
  assumes "z \<le> of_int m"
  shows "round_even z \<le> m"
proof -
  have "\<lceil>z\<rceil> \<le> m" using assms by (simp add: ceiling_le_iff)
  then show ?thesis using round_even_le_ceiling[of z] by linarith
qed

lemma round_even_error: "\<bar>of_int (round_even z) - z\<bar> \<le> 1 / 2"
proof -
  have "of_int \<lfloor>z\<rfloor> \<le> z" "z < of_int \<lfloor>z\<rfloor> + 1" by linarith+
  then show ?thesis unfolding round_even_def Let_def by (auto simp: abs_le_iff)
qed

lemma round_even_near:
  assumes "of_int m - 1 / 2 < z" "z < of_int m + 1 / 2"
  shows "round_even z = m"
proof -
  have e: "\<bar>of_int (round_even z) - z\<bar> \<le> 1 / 2" by (rule round_even_error)
  have "\<bar>of_int (round_even z) - (of_int m :: rat)\<bar> < 1"
    using e assms by linarith
  then have "\<bar>round_even z - m\<bar> < 1"
    by (metis of_int_abs of_int_diff of_int_less_1_iff)
  then show ?thesis by simp
qed

lemma ilog2_mono:
  assumes "0 < x" "x \<le> y"
  shows "ilog2 x \<le> ilog2 y"
proof -
  have "2 powi ilog2 x \<le> x" using ilog2_bounds[OF assms(1)] by simp
  moreover have "y < 2 powi (ilog2 y + 1)" using ilog2_bounds[of y] assms by simp
  ultimately have "(2::rat) powi ilog2 x < 2 powi (ilog2 y + 1)" using assms(2) by simp
  then have "ilog2 x < ilog2 y + 1"
    by (metis not_less power_int_increasing one_le_numeral)
  then show ?thesis by simp
qed

lemma quantum_pos: "0 < quantum a"
  by (simp add: quantum_def zero_less_power_int)

lemma fl_pos:
  assumes "0 < x"
  shows "fl x = (if 2 powi 1024 \<le> of_int (round_even (x / quantum x)) * quantum x then PInf
                 else Fin (of_int (round_even (x / quantum x)) * quantum x))"
  using assms by (simp add: fl_def Let_def quantum_def del: power_int_numeral)

lemma fl_fixed:
  assumes "fl t = Fin t" "0 < t"
  shows "t = of_int (round_even (t / quantum t)) * quantum t" "t < 2 powi 1024"
  using assms by (auto simp: fl_pos split: if_splits simp del: power_int_numeral)

lemma quantum_normal: "- 1022 \<le> ilog2 a \<Longrightarrow> quantum a * 2 ^ 52 = 2 powi ilog2 a"
  by (simp add: quantum_def power_int_diff)

lemma quantum_mono:
  assumes "0 < x" "x \<le> y"
  shows "quantum x \<le> quantum y"
  unfolding quantum_def using ilog2_mono[OF assms] by (intro power_int_increasing) auto

lemma fl_mono_ge:
  assumes "fl t = Fin t" "0 < t" "t \<le> x"
  shows "fl x = PInf \<or> (\<exists>y. fl x = Fin y \<and> t \<le> y)"
proof -
  have x: "0 < x" using assms by simp
  define y where "y = of_int (round_even (x / quantum x)) * quantum x"
  have "t \<le> y"
  proof (cases "max (ilog2 x) (- 1022) = max (ilog2 t) (- 1022)")
    case True
    then have q: "quantum x = quantum t" by (simp add: quantum_def)
    have "of_int (round_even (t / quantum t)) = t / quantum t"
      using fl_fixed(1)[OF assms(1,2)] quantum_pos[of t] by (simp add: field_simps)
    also have "\<dots> \<le> x / quantum t"
      using assms(3) quantum_pos[of t] by (simp add: divide_right_mono)
    finally have "round_even (t / quantum t) \<le> round_even (x / quantum t)"
      by (rule round_even_ge_int)
    then have "of_int (round_even (t / quantum t)) * quantum t \<le> y"
      unfolding y_def q using quantum_pos[of t] by (simp add: mult_right_mono)
    then show ?thesis using fl_fixed(1)[OF assms(1,2)] by simp
  next
    case False
    have le: "ilog2 t \<le> ilog2 x" using assms by (intro ilog2_mono)
    with False have lt: "max (ilog2 t) (- 1022) < ilog2 x" and n: "- 1022 \<le> ilog2 x" by auto
    have "of_int (2 ^ 52) = 2 powi ilog2 x / quantum x"
      using quantum_normal[OF n] quantum_pos[of x] by (simp add: field_simps)
    also have "\<dots> \<le> x / quantum x"
      using ilog2_bounds[OF x] quantum_pos[of x] by (simp add: divide_right_mono)
    finally have "2 ^ 52 \<le> round_even (x / quantum x)" by (rule round_even_ge_int)
    then have "(of_int (2 ^ 52) :: rat) \<le> of_int (round_even (x / quantum x))"
      unfolding of_int_le_iff .
    then have "of_int (2 ^ 52) * quantum x \<le> y"
      unfolding y_def using quantum_pos[of x] by (intro mult_right_mono) auto
    then have "2 powi ilog2 x \<le> y" using quantum_normal[OF n] by (simp add: mult.commute)
    moreover have "t < 2 powi (ilog2 t + 1)" using ilog2_bounds[OF assms(2)] by simp
    moreover have "(2::rat) powi (ilog2 t + 1) \<le> 2 powi ilog2 x"
      using lt by (intro power_int_increasing) auto
    ultimately show ?thesis by linarith
  qed
  then show ?thesis using fl_pos[OF x] unfolding y_def by auto
qed

lemma fl_mono_le:
  assumes "fl t = Fin t" "0 < x" "x \<le> t"
  shows "\<exists>y. fl x = Fin y \<and> 0 \<le> y \<and> y \<le> t"
proof -
  have t: "0 < t" using assms by simp
  define y where "y = of_int (round_even (x / quantum x)) * quantum x"
  have y0: "0 \<le> y"
    unfolding y_def using quantum_pos[of x] assms(2) round_even_nonneg[of "x / quantum x"] by simp
  have "y \<le> t"
  proof (cases "max (ilog2 x) (- 1022) = max (ilog2 t) (- 1022)")
    case True
    then have q: "quantum x = quantum t" by (simp add: quantum_def)
    have "x / quantum t \<le> t / quantum t"
      using assms(3) quantum_pos[of t] by (simp add: divide_right_mono)
    also have "\<dots> = of_int (round_even (t / quantum t))"
      using fl_fixed(1)[OF assms(1) t] quantum_pos[of t] by (simp add: field_simps)
    finally have "round_even (x / quantum t) \<le> round_even (t / quantum t)"
      by (rule round_even_le_int)
    then have "y \<le> of_int (round_even (t / quantum t)) * quantum t"
      unfolding y_def q using quantum_pos[of t] by (simp add: mult_right_mono)
    then show ?thesis using fl_fixed(1)[OF assms(1) t] by simp
  next
    case False
    have le: "ilog2 x \<le> ilog2 t" using assms by (intro ilog2_mono)
    with False have lt: "max (ilog2 x) (- 1022) < ilog2 t" by auto
    define e where "e = max (ilog2 x) (- 1022)"
    have q: "quantum x * 2 ^ 53 = 2 powi (e + 1)"
      by (simp add: quantum_def e_def power_int_diff power_int_add)
    have "x < 2 powi (ilog2 x + 1)" using ilog2_bounds[OF assms(2)] by simp
    also have "\<dots> \<le> 2 powi (e + 1)"
      unfolding e_def by (intro power_int_increasing) auto
    finally have "x / quantum x \<le> of_int (2 ^ 53)"
      using q quantum_pos[of x] by (simp add: field_simps)
    then have "round_even (x / quantum x) \<le> 2 ^ 53" by (rule round_even_le_int)
    then have "(of_int (round_even (x / quantum x)) :: rat) \<le> of_int (2 ^ 53)"
      unfolding of_int_le_iff .
    then have "y \<le> of_int (2 ^ 53) * quantum x"
      unfolding y_def using quantum_pos[of x] by (intro mult_right_mono) auto
    then have "y \<le> 2 powi (e + 1)" using q by (simp add: mult.commute)
    moreover have "(2::rat) powi (e + 1) \<le> 2 powi ilog2 t"
      using lt unfolding e_def by (intro power_int_increasing) auto
    moreover have "2 powi ilog2 t \<le> t" using ilog2_bounds[OF t] by simp
    ultimately show ?thesis by linarith
  qed
  moreover have "t < 2 powi 1024" using fl_fixed(2)[OF assms(1) t] .
  ultimately have "\<not> 2 powi 1024 \<le> y" by linarith
  then have "fl x = Fin y" using fl_pos[OF assms(2)] unfolding y_def by simp
  then show ?thesis using y0 \<open>y \<le> t\<close> by blast
qed

lemma quantum_eq:
  assumes "0 < x" "2 powi e \<le> x" "x < 2 powi (e + 1)" "- 1022 \<le> e"
  shows "quantum x = 2 powi (e - 52)"
  using ilog2_unique[OF assms(1-3)] assms(4) by (simp add: quantum_def)

lemma fl_error:
  assumes "0 < x" "fl x = Fin y"
  shows "\<bar>y - x\<bar> \<le> quantum x / 2"
proof -
  have y: "y = of_int (round_even (x / quantum x)) * quantum x"
    using assms by (auto simp: fl_pos split: if_splits simp del: power_int_numeral)
  have "\<bar>y - x\<bar> = \<bar>of_int (round_even (x / quantum x)) - x / quantum x\<bar> * quantum x"
    using quantum_pos[of x] by (simp add: y abs_mult_pos[symmetric] field_simps)
  also have "\<dots> \<le> 1 / 2 * quantum x"
    using round_even_error[of "x / quantum x"] quantum_pos[of x] by (intro mult_right_mono) auto
  finally show ?thesis by simp
qed

lemma fl_relative_error:
  assumes "2 powi (- 1022) \<le> x" "fl x = Fin y"
  shows "\<bar>y - x\<bar> \<le> x / 2 ^ 53"
proof -
  have x: "0 < x" using assms(1) zero_less_power_int[of "2::rat" "- 1022"] by linarith
  have "x < 2 powi (ilog2 x + 1)" using ilog2_bounds[OF x] by simp
  with assms(1) have "(2::rat) powi (- 1022) < 2 powi (ilog2 x + 1)" by linarith
  then have "- 1022 < ilog2 x + 1"
    by (metis not_less power_int_increasing one_le_numeral)
  then have n: "- 1022 \<le> ilog2 x" by simp
  have "quantum x * 2 ^ 52 \<le> x" using quantum_normal[OF n] ilog2_bounds[OF x] by simp
  then have "quantum x / 2 \<le> x / 2 ^ 53" by (simp add: field_simps)
  then show ?thesis using fl_error[OF x assms(2)] by linarith
qed

lemma round_even_tie: "even m \<Longrightarrow> round_even (of_int m - 1 / 2) = m"
proof -
  have "\<lfloor>(of_int m :: rat) - 1 / 2\<rfloor> = m - 1" by (simp add: floor_eq_iff)
  then show "even m \<Longrightarrow> round_even (of_int m - 1 / 2) = m"
    by (simp add: round_even_def)
qed

lemma fl_eval_near:
  assumes "0 < x" "2 powi e \<le> x" "x < 2 powi (e + 1)" "- 1022 \<le> e" "e \<le> 1022"
    and "round_even (x / 2 powi (e - 52)) = m"
  shows "fl x = Fin (of_int m * 2 powi (e - 52))"
proof -
  have q: "quantum x = 2 powi (e - 52)" using assms(1-4) by (rule quantum_eq)
  have q53: "(2::rat) powi (e - 52) * 2 ^ 53 = 2 powi (e + 1)"
    by (simp add: power_int_diff power_int_add)
  have "x / 2 powi (e - 52) \<le> of_int (2 ^ 53)"
    using assms(3) q53 zero_less_power_int[of "2::rat" "e - 52"] by (simp add: field_simps)
  then have "m \<le> 2 ^ 53" using round_even_le_int assms(6) by blast
  then have "(of_int m :: rat) \<le> of_int (2 ^ 53)" unfolding of_int_le_iff .
  then have "of_int m * (2::rat) powi (e - 52) \<le> of_int (2 ^ 53) * 2 powi (e - 52)"
    by (intro mult_right_mono) (auto simp: zero_le_power_int)
  then have "of_int m * (2::rat) powi (e - 52) \<le> 2 powi (e + 1)"
    using q53 by (simp only: mult.commute of_int_power of_int_numeral)
  moreover have "(2::rat) powi (e + 1) < 2 powi 1024"
    using assms(5) by (intro power_int_strict_increasing) auto
  ultimately have "\<not> 2 powi 1024 \<le> of_int m * (2::rat) powi (e - 52)" by linarith
  then show ?thesis using fl_pos[OF assms(1)] unfolding q assms(6) by simp
qed

lemma fl_ge_threshold:
  assumes x: "0 < x" and m: "2 ^ 52 < m" "m < 2 ^ 53" "even m" and e: "- 1022 \<le> e" "e \<le> 1022"
    and t: "t = of_int m * 2 powi (e - 52)"
  shows "(fl x = PInf \<or> (\<exists>y. fl x = Fin y \<and> t \<le> y)) \<longleftrightarrow> t - 2 powi (e - 53) \<le> x"
proof -
  define q :: rat where "q = 2 powi (e - 52)"
  have q: "0 < q" by (simp add: q_def zero_less_power_int)
  have h: "(2::rat) powi (e - 53) = q / 2" by (simp add: q_def power_int_diff)
  have qe: "q * 2 ^ 52 = 2 powi e" "q * 2 ^ 53 = 2 powi (e + 1)"
    by (simp_all add: q_def power_int_diff power_int_add)
  have m': "(of_int (2 ^ 52) :: rat) < of_int m" "(of_int m :: rat) < of_int (2 ^ 53)"
    "(of_int (2 ^ 52) :: rat) \<le> of_int (m - 1)"
    unfolding of_int_less_iff of_int_le_iff using m by auto
  define p where "p = of_int (m - 1) * q"
  have tq: "t = of_int m * q" by (simp add: t q_def)
  have pt: "p = t - q" by (simp add: p_def tq algebra_simps)
  have "of_int (2 ^ 52) * q \<le> of_int (m - 1) * q"
    using m'(3) q by (intro mult_right_mono) auto
  then have pb: "2 powi e \<le> p" using qe(1) by (simp add: p_def mult.commute)
  have "of_int m * q < of_int (2 ^ 53) * q"
    using m'(2) q by (intro mult_strict_right_mono) auto
  then have tb: "t < 2 powi (e + 1)" using qe(2) by (simp add: tq mult.commute)
  have p0: "0 < p" using pb zero_less_power_int[of "2::rat" e] by linarith
  have t0: "0 < t" using p0 pt q by linarith
  have tlo: "2 powi e \<le> t" using pb pt q by linarith
  have plt: "p < 2 powi (e + 1)" using tb pt q by linarith
  have "t / 2 powi (e - 52) = of_int m" using q by (simp add: tq q_def)
  then have "round_even (t / 2 powi (e - 52)) = m" by (simp add: round_even_of_int)
  from fl_eval_near[OF t0 tlo tb e this] have flt: "fl t = Fin t" by (simp add: tq q_def)
  have "p / 2 powi (e - 52) = of_int (m - 1)" using q by (simp add: p_def q_def)
  then have "round_even (p / 2 powi (e - 52)) = m - 1" by (simp only: round_even_of_int)
  from fl_eval_near[OF p0 pb plt e this] have flp: "fl p = Fin p" by (simp add: p_def q_def)
  show ?thesis
  proof
    assume "fl x = PInf \<or> (\<exists>y. fl x = Fin y \<and> t \<le> y)"
    show "t - 2 powi (e - 53) \<le> x"
    proof (rule ccontr)
      assume "\<not> t - 2 powi (e - 53) \<le> x"
      then have lt: "x < t - q / 2" by (simp add: h)
      have "\<exists>y. fl x = Fin y \<and> y < t"
      proof (cases "x \<le> p")
        case True
        from fl_mono_le[OF flp x True] show ?thesis using pt q by force
      next
        case False
        then have px: "p < x" by simp
        have "of_int (m - 1) - 1 / 2 < x / q" "x / q < of_int (m - 1) + 1 / 2"
          using px lt q by (simp_all add: p_def tq field_simps)
        then have "round_even (x / q) = m - 1" by (rule round_even_near)
        then have "fl x = Fin p"
          using fl_eval_near[of x e "m - 1"] x pb px lt tb q e by (simp add: q_def p_def)
        then show ?thesis using pt q by simp
      qed
      with \<open>fl x = PInf \<or> (\<exists>y. fl x = Fin y \<and> t \<le> y)\<close> show False by auto
    qed
  next
    assume a: "t - 2 powi (e - 53) \<le> x"
    show "fl x = PInf \<or> (\<exists>y. fl x = Fin y \<and> t \<le> y)"
    proof (cases "t \<le> x")
      case True
      then show ?thesis using fl_mono_ge[OF flt t0] by blast
    next
      case False
      then have xt: "x < t" by simp
      have lo: "t - q / 2 \<le> x" using a by (simp add: h)
      have "round_even (x / q) = m"
      proof (cases "x = t - q / 2")
        case True
        then have "x / q = of_int m - 1 / 2" using q by (simp add: tq field_simps)
        then show ?thesis using round_even_tie[OF m(3)] by simp
      next
        case False
        then have "of_int m - 1 / 2 < x / q" "x / q < of_int m + 1 / 2"
          using lo xt q by (simp_all add: tq field_simps)
        then show ?thesis by (rule round_even_near)
      qed
      moreover have "2 powi e \<le> x" using pb pt lo q by linarith
      ultimately have "fl x = Fin t"
        using fl_eval_near[of x e m] x xt tb e by (simp add: q_def tq)
      then show ?thesis by simp
    qed
  qed
qed

section \<open>The declaration check\<close>

lemma rates_eq: "rates s cur = or_NaN (js_Number (rate_text s cur))"
  by (cases cur) simp_all

lemma results_eq: "results s j = check s (currency (LIMITS j)) (amount (LIMITS j))"
  by (cases j) simp_all

lemma idr_s0: "idr s0 = Fin 240000000"
  by (simp add: s0_def idr_def initial_state_def parse_defs fl_numeral)

lemma rates_s0: "rates s0 SGD = Fin 12000"
  by (simp add: s0_def initial_state_def parse_defs fl_numeral or_NaN_def falsy_def)

lemma fl_3817: "fl (190891 / 50) = Fin (8395474965511537 / 2199023255552)"
proof -
  have "fl (190891 / 50) = Fin (of_int 8395474965511537 * 2 powi (11 - 52))"
    by (rule fl_eval_near; (rule round_even_near)?) simp_all
  then show ?thesis by simp
qed

lemma rates_s_edge: "rates s_edge SGD = Fin (8395474965511537 / 2199023255552)"
proof -
  have "js_Number (lit ''3817.82'') = fl (190891 / 50)"
    by (simp add: parse_defs)
  then show ?thesis
    by (simp add: s_edge_def initial_state_def fl_3817 or_NaN_def falsy_def)
qed

lemma idr_s_edge: "idr s_edge = Fin 76356400"
  by (simp add: s_edge_def idr_def initial_state_def parse_defs fl_numeral)

lemma fl_edge_quotient: "fl (76356400 / (8395474965511537 / 2199023255552)) = Fin 20000"
proof -
  have "fl (76356400 / (8395474965511537 / 2199023255552))
        = Fin (of_int 5497558138880000 * 2 powi (14 - 52))"
    by (rule fl_eval_near; (rule round_even_near)?) simp_all
  then show ?thesis by simp
qed





lemma js_ge_Fin_iff: "js_ge v (Fin t) \<longleftrightarrow> v = PInf \<or> (\<exists>y. v = Fin y \<and> t \<le> y)"
  by (cases v) auto

lemma limit_threshold:
  assumes "amount (LIMITS j) = Fin t" "0 < x"
  shows "js_ge (fl x) (Fin t) \<longleftrightarrow> t - half_ulp j \<le> x"
proof (cases j)
  case SG
  then have t: "t = of_int 5497558138880000 * 2 powi (14 - 52)" using assms(1) by simp
  show ?thesis
    unfolding js_ge_Fin_iff using fl_ge_threshold[OF assms(2) _ _ _ _ _ t] by (simp add: SG)
next
  case AE
  then have t: "t = of_int 8246337208320000 * 2 powi (15 - 52)" using assms(1) by simp
  show ?thesis
    unfolding js_ge_Fin_iff using fl_ge_threshold[OF assms(2) _ _ _ _ _ t] by (simp add: AE)
next
  case EU
  then have t: "t = of_int 5497558138880000 * 2 powi (13 - 52)" using assms(1) by simp
  show ?thesis
    unfolding js_ge_Fin_iff using fl_ge_threshold[OF assms(2) _ _ _ _ _ t] by (simp add: EU)
qed

lemma check_finite:
  assumes "idr s = Fin a" "0 < a" "rates s cur = Fin r" "0 < r"
  shows "check s cur (Fin t)
         = Some \<lparr>converted = fl (a / r), needsDecl = js_ge (fl (a / r)) (Fin t),
                 maxBeforeDeclIDR = Math_max (Fin 0) (Math_floor (fl (t * r)))\<rparr>"
  using assms by (simp add: check_def falsy_def isNaN_def Let_def)

lemma results_finite:
  assumes "idr s = Fin a" "0 < a" "rates s (currency (LIMITS j)) = Fin r" "0 < r"
    and "amount (LIMITS j) = Fin t"
  shows "results s j
         = Some \<lparr>converted = fl (a / r), needsDecl = js_ge (fl (a / r)) (Fin t),
                 maxBeforeDeclIDR = Math_max (Fin 0) (Math_floor (fl (t * r)))\<rparr>"
  unfolding results_eq assms(5) using assms(1-4) by (rule check_finite)


lemma results_s_edge:
  "results s_edge SG
   = Some \<lparr>converted = Fin 20000, needsDecl = True,
           maxBeforeDeclIDR = Math_max (Fin 0) (Math_floor (fl (20000 * (8395474965511537 / 2199023255552))))\<rparr>"
proof -
  have r: "rates s_edge (currency (LIMITS SG)) = Fin (8395474965511537 / 2199023255552)"
    using rates_s_edge by simp
  have t: "amount (LIMITS SG) = Fin 20000" by simp
  have "results s_edge SG
     = Some \<lparr>converted = fl (76356400 / (8395474965511537 / 2199023255552)),
         needsDecl = js_ge (fl (76356400 / (8395474965511537 / 2199023255552))) (Fin 20000),
         maxBeforeDeclIDR = Math_max (Fin 0) (Math_floor (fl (20000 * (8395474965511537 / 2199023255552))))\<rparr>"
    by (rule results_finite[OF idr_s_edge _ r _ t]) simp_all
  then show ?thesis unfolding fl_edge_quotient by simp
qed


text \<open>
  Claim C1, as the code has it. For a finite parsed amount \<open>a\<close> and a finite rate \<open>r\<close>, both
  above zero, and the limit \<open>t\<close> of the jurisdiction, \<^verbatim>\<open>check\<close> returns a result. Its
  \<^verbatim>\<open>converted\<close> is the binary64 number nearest to the quotient \<open>a / r\<close>: the quotient itself
  when that is an integer up to \<open>2 ^ 53\<close>, and otherwise off by at most the fraction
  \<open>1 / 2 ^ 53\<close> of the quotient (for a quotient in the normal range). Its \<^verbatim>\<open>needsDecl\<close> is true
  exactly when the quotient is at least \<open>t\<close> minus half the spacing of the binary64 numbers
  below \<open>t\<close>; so it is true whenever \<open>a / r \<ge> t\<close>, and whenever \<^verbatim>\<open>converted\<close> equals \<open>t\<close> (the
  comparison is not strict).
\<close>

theorem check_converts:
  assumes "idr s = Fin a" and "0 < a" and "rates s (currency (LIMITS j)) = Fin r" and "0 < r"
    and "amount (LIMITS j) = Fin t"
  shows "\<exists>res. results s j = Some res
           \<and> converted res = fl (a / r)
           \<and> (a / r = of_int n \<and> n \<le> 2 ^ 53 \<longrightarrow> converted res = Fin (a / r))
           \<and> (2 powi (- 1022) \<le> a / r \<longrightarrow> (\<forall>y. converted res = Fin y \<longrightarrow> \<bar>y - a / r\<bar> \<le> a / r / 2 ^ 53))
           \<and> (needsDecl res \<longleftrightarrow> t - half_ulp j \<le> a / r)
           \<and> (t \<le> a / r \<longrightarrow> needsDecl res)
           \<and> (converted res = Fin t \<longrightarrow> needsDecl res)"
proof -
  have x: "0 < a / r" using assms(2,4) by simp
  have hp: "0 < half_ulp j" by (cases j) simp_all
  define res where "res = \<lparr>converted = fl (a / r), needsDecl = js_ge (fl (a / r)) (Fin t),
      maxBeforeDeclIDR = Math_max (Fin 0) (Math_floor (fl (t * r)))\<rparr>"
  have 1: "results s j = Some res"
    unfolding res_def using assms by (rule results_finite)
  have 2: "converted res = fl (a / r)" by (simp add: res_def)
  have 3: "converted res = Fin (a / r)" if "a / r = of_int n \<and> n \<le> 2 ^ 53"
  proof -
    have "0 < n" using x that by simp
    then have "\<bar>n\<bar> \<le> 2 ^ 53" using that by simp
    from fl_of_int[OF this] show ?thesis using that by (simp add: 2)
  qed
  have 4: "\<bar>y - a / r\<bar> \<le> a / r / 2 ^ 53" if "2 powi (- 1022) \<le> a / r" "converted res = Fin y" for y
    using that fl_relative_error[of "a / r" y] by (simp add: 2)
  have 5: "needsDecl res \<longleftrightarrow> t - half_ulp j \<le> a / r"
    using limit_threshold[OF assms(5) x] by (simp add: res_def)
  have 6: "needsDecl res" if "converted res = Fin t"
    using that by (simp add: res_def)
  have 7: "needsDecl res" if "t \<le> a / r"
    using that 5 hp by linarith
  show ?thesis using 1 2 3 4 5 6 7 by blast
qed

theorem check_converts_witness:
  "idr s0 = Fin 240000000 \<and> rates s0 (currency (LIMITS SG)) = Fin 12000
   \<and> amount (LIMITS SG) = Fin 20000 \<and> (240000000 / 12000 :: rat) = of_int 20000
   \<and> (\<exists>res. results s0 SG = Some res \<and> converted res = Fin 20000 \<and> needsDecl res)
   \<and> idr s_edge = Fin 76356400
   \<and> rates s_edge (currency (LIMITS SG)) = Fin (8395474965511537 / 2199023255552)
   \<and> 20000 - half_ulp SG \<le> (76356400 / (8395474965511537 / 2199023255552) :: rat)
   \<and> (\<exists>res. results s_edge SG = Some res \<and> converted res = Fin 20000 \<and> needsDecl res)"
proof -
  have r0: "rates s0 (currency (LIMITS SG)) = Fin 12000" using rates_s0 by simp
  have re: "rates s_edge (currency (LIMITS SG)) = Fin (8395474965511537 / 2199023255552)"
    using rates_s_edge by simp
  have t: "amount (LIMITS SG) = Fin 20000" by simp
  have q: "(240000000 / 12000 :: rat) = of_int 20000" by simp
  have h: "20000 - half_ulp SG \<le> (76356400 / (8395474965511537 / 2199023255552) :: rat)"
    by simp
  have "\<exists>res. results s0 SG = Some res \<and> converted res = Fin 20000 \<and> needsDecl res"
    using check_converts[OF idr_s0 _ r0 _ t, of 20000] q by auto
  moreover have "\<exists>res. results s_edge SG = Some res \<and> converted res = Fin 20000 \<and> needsDecl res"
  proof -
    obtain res where res: "results s_edge SG = Some res" "converted res = fl (76356400 / (8395474965511537 / 2199023255552))"
      "needsDecl res \<longleftrightarrow> 20000 - half_ulp SG \<le> 76356400 / (8395474965511537 / 2199023255552)"
      using check_converts[OF idr_s_edge _ re _ t, of 0] by auto
    then show ?thesis using h unfolding fl_edge_quotient by blast
  qed
  ultimately show ?thesis using idr_s0 r0 t q idr_s_edge re h by blast
qed

text \<open>
  Claim C1 as stated compares the exact quotient with the limit. For the amount
  \<^verbatim>\<open>76356400\<close> and the rate \<^verbatim>\<open>3817.82\<close> the exact quotient of the parsed numbers is below
  \<open>20000\<close>, while \<^verbatim>\<open>converted\<close> is \<open>20000\<close> and \<^verbatim>\<open>needsDecl\<close> is true.
\<close>

theorem quotient_is_rounded:
  "idr s_edge = Fin 76356400 \<and> rates s_edge SGD = Fin (8395474965511537 / 2199023255552)
   \<and> map_option converted (results s_edge SG) = Some (Fin 20000)
   \<and> map_option needsDecl (results s_edge SG) = Some True
   \<and> (76356400 / (8395474965511537 / 2199023255552) :: rat) < 20000"
  unfolding results_s_edge by (simp add: idr_s_edge rates_s_edge del: rates.simps)






lemma js_Number_empty: "js_Number [] = Fin 0"
  by (simp add: js_Number_def trim_def)

lemma idr_no_digits: "filter is_digit (amountIDR s) = [] \<Longrightarrow> idr s = Fin 0"
  by (simp add: idr_def js_Number_empty)

lemma check_None_iff:
  "check s cur T = None \<longleftrightarrow> falsy (js_Number (rate_text s cur)) \<or> falsy (idr s)"
  by (auto simp: check_def rates_eq or_NaN_def falsy_def isNaN_def Let_def)

text \<open>
  Claim C6. When the amount text has no digit (the empty text included), the result of
  every limit is \<^verbatim>\<open>null\<close>, whatever the rates are.
\<close>

theorem no_digits_null:
  assumes "filter is_digit (amountIDR s) = []"
  shows "results s j = None"
  using idr_no_digits[OF assms] by (simp add: results_eq check_None_iff falsy_def)

theorem no_digits_null_witness:
  "filter is_digit (amountIDR s_nodigits) = [] \<and> rates s_nodigits SGD = Fin 12000
   \<and> results s_nodigits SG = None"
proof -
  have h: "filter is_digit (amountIDR s_nodigits) = []"
    by (simp add: s_nodigits_def lit_def is_digit_def)
  have "rates s_nodigits SGD = Fin 12000"
    by (simp add: s_nodigits_def initial_state_def parse_defs fl_numeral or_NaN_def falsy_def)
  then show ?thesis using h no_digits_null[OF h, of SG] by simp
qed

text \<open>
  Claim C3, as the code has it. The result of a limit is \<^verbatim>\<open>null\<close> when the parsed amount
  is zero, or when the text of the rate is empty, is not a number or is zero. A negative
  rate is not among these cases.
\<close>

theorem undetermined_null:
  assumes "falsy (idr s) \<or> rate_text s (currency (LIMITS j)) = []
           \<or> js_Number (rate_text s (currency (LIMITS j))) = NaN
           \<or> js_Number (rate_text s (currency (LIMITS j))) = Fin 0"
  shows "results s j = None"
  using assms by (auto simp: results_eq check_None_iff falsy_def js_Number_empty)

theorem undetermined_null_witness:
  "js_Number (rate_text s_words (currency (LIMITS SG))) = NaN \<and> results s_words SG = None
   \<and> js_Number (rate_text s_words (currency (LIMITS AE))) = Fin 0 \<and> results s_words AE = None
   \<and> rate_text s_words (currency (LIMITS EU)) = [] \<and> results s_words EU = None
   \<and> falsy (idr s_nodigits) \<and> results s_nodigits SG = None"
proof -
  have 1: "js_Number (rate_text s_words (currency (LIMITS SG))) = NaN"
    by (simp add: s_words_def initial_state_def parse_defs)
  have 2: "js_Number (rate_text s_words (currency (LIMITS AE))) = Fin 0"
    by (simp add: s_words_def initial_state_def parse_defs fl_def)
  have 3: "rate_text s_words (currency (LIMITS EU)) = []"
    by (simp add: s_words_def initial_state_def)
  have 4: "falsy (idr s_nodigits)"
    by (simp add: s_nodigits_def idr_def lit_def is_digit_def js_Number_empty falsy_def)
  show ?thesis
    using 1 2 3 4 undetermined_null[of s_words SG] undetermined_null[of s_words AE]
      undetermined_null[of s_words EU] undetermined_null[of s_nodigits SG]
    by blast
qed

text \<open>
  Claim C3 as stated fails for a negative rate: with the amount \<^verbatim>\<open>100\<close> and the rate \<^verbatim>\<open>-5\<close>
  for SGD, \<^verbatim>\<open>check\<close> returns a result (the guard \<^verbatim>\<open>!rate || isNaN(rate) || !idr\<close> lets a
  negative rate pass, and \<^verbatim>\<open>Math.max(0, ...)\<close> then clamps the threshold).
\<close>

theorem negative_rate_result:
  "js_Number (rate_text s_negative SGD) = Fin (- 5)
   \<and> results s_negative SG
       = Some \<lparr>converted = Fin (- 20), needsDecl = False, maxBeforeDeclIDR = Fin 0\<rparr>"
proof -
  have r: "js_Number (idrPerSGD s_negative) = Fin (- 5)"
    by (simp add: s_negative_def initial_state_def parse_defs fl_numeral)
  have a: "idr s_negative = Fin 100"
    by (simp add: s_negative_def idr_def initial_state_def parse_defs fl_numeral)
  show ?thesis
    by (simp add: check_def r a or_NaN_def falsy_def isNaN_def fl_numeral fl_neg_numeral)
qed

lemma rates_js_strings:
  "rates_js (Str (idrPerSGD s)) (Str (idrPerAED s)) (Str (idrPerEUR s))
   = Inr (Obj [(lit ''SGD'', Num (rates s SGD)), (lit ''AED'', Num (rates s AED)),
               (lit ''EUR'', Num (rates s EUR))])"
  by (simp add: rates_js_def call_Number_def or_else_def or_NaN_def)

lemma idr_js_string: "idr_js (Str (amountIDR s)) = Inr (Num (idr s))"
  by (simp add: idr_js_def call_Number_def idr_def)

lemma Get_rates:
  "Get (Obj [(lit ''SGD'', a), (lit ''AED'', b), (lit ''EUR'', c)]) (currency_name cur)
   = Inr (case cur of SGD \<Rightarrow> a | AED \<Rightarrow> b | EUR \<Rightarrow> c)"
  by (cases cur) (simp_all add: lit_def)

lemma check_js_numbers:
  "check_js (Obj [(lit ''SGD'', Num (rates s SGD)), (lit ''AED'', Num (rates s AED)),
                  (lit ''EUR'', Num (rates s EUR))]) (Num (idr s)) cur (Num t)
   = Inr (result_value (check s cur t))"
proof -
  have g: "(case cur of SGD \<Rightarrow> Num (rates s SGD) | AED \<Rightarrow> Num (rates s AED) | EUR \<Rightarrow> Num (rates s EUR))
           = Num (rates s cur)"
    by (cases cur) simp_all
  show ?thesis
    unfolding check_js_def Get_rates g
    by (simp add: check_def call_isNaN_def op_div_def op_mul_def op_ge_def Let_def del: rates.simps)
qed

lemma results_js_strings:
  "results_js (Str (amountIDR s)) (Str (idrPerSGD s)) (Str (idrPerAED s)) (Str (idrPerEUR s))
   = Inr (Obj [(lit ''SG'', result_value (results s SG)), (lit ''AE'', result_value (results s AE)),
               (lit ''EU'', result_value (results s EU))])"
  unfolding results_js_def rates_js_strings idr_js_string
  by (simp add: check_js_numbers del: rates.simps result_value.simps)

text \<open>
  The untyped evaluation can raise: a rate that is a \<^verbatim>\<open>Symbol\<close> has no number. The state of
  \<^verbatim>\<open>App\<close> holds strings only.
\<close>

lemma symbol_rate_raises: "results_js (Str a) Symbol (Str b) (Str c) = Inl TypeError"
  by (simp add: results_js_def rates_js_def call_Number_def)

text \<open>
  Claim C9. For every amount text and every three rate texts, the evaluation of lines 31 to
  52 on untyped values raises no exception: it yields the object \<^verbatim>\<open>results\<close> whose three
  entries are the results of \<^verbatim>\<open>check\<close>, each \<^verbatim>\<open>null\<close> or an object with the three fields of
  a result. The results are a function of these four texts alone: they are the results of
  the state that holds the four texts and nothing else.
\<close>

theorem evaluator_never_raises:
  "results_js (Str (amountIDR s)) (Str (idrPerSGD s)) (Str (idrPerAED s)) (Str (idrPerEUR s))
   = Inr (Obj [(lit ''SG'', result_value (results s SG)), (lit ''AE'', result_value (results s AE)),
               (lit ''EU'', result_value (results s EU))])
   \<and> results s j
     = results (initial_state\<lparr>amountIDR := amountIDR s, idrPerSGD := idrPerSGD s,
                               idrPerAED := idrPerAED s, idrPerEUR := idrPerEUR s\<rparr>) j"
proof
  show "results_js (Str (amountIDR s)) (Str (idrPerSGD s)) (Str (idrPerAED s)) (Str (idrPerEUR s))
   = Inr (Obj [(lit ''SG'', result_value (results s SG)), (lit ''AE'', result_value (results s AE)),
               (lit ''EU'', result_value (results s EU))])"
    by (rule results_js_strings)
  define s' where "s' = initial_state\<lparr>amountIDR := amountIDR s, idrPerSGD := idrPerSGD s,
                               idrPerAED := idrPerAED s, idrPerEUR := idrPerEUR s\<rparr>"
  have "rates s cur = rates s' cur" for cur by (cases cur) (simp_all add: s'_def)
  moreover have "idr s = idr s'" by (simp add: idr_def s'_def)
  ultimately have "check s cur T = check s' cur T" for cur T by (auto simp: check_def Let_def)
  then show "results s j = results (initial_state\<lparr>amountIDR := amountIDR s,
      idrPerSGD := idrPerSGD s, idrPerAED := idrPerAED s, idrPerEUR := idrPerEUR s\<rparr>) j"
    unfolding results_eq s'_def by simp
qed

theorem evaluator_never_raises_witness:
  "results_js (Str (lit ''240000000'')) (Str (lit ''12000'')) (Str []) (Str [])
   = Inr (Obj [(lit ''SG'', Obj [(lit ''converted'', Num (Fin 20000)), (lit ''needsDecl'', Bool True),
                                  (lit ''maxBeforeDeclIDR'', Num (Fin 240000000))]),
               (lit ''AE'', Null), (lit ''EU'', Null)])
   \<and> results_js (Str (lit ''100'')) (Str (lit ''abc'')) (Str (lit ''0'')) (Str [])
     = Inr (Obj [(lit ''SG'', Null), (lit ''AE'', Null), (lit ''EU'', Null)])
   \<and> results (s0\<lparr>fetching := True, activeTab := EU, fetchError := Some (lit ''x'')\<rparr>) SG
     = results s0 SG"
proof -
  have 1: "results s0 SG
           = Some \<lparr>converted = Fin 20000, needsDecl = True, maxBeforeDeclIDR = Fin 240000000\<rparr>"
    by (simp add: check_def idr_s0 rates_s0 falsy_def isNaN_def fl_numeral del: rates.simps)
  have 2: "results s0 AE = None" "results s0 EU = None"
    by (simp_all add: check_def s0_def initial_state_def parse_defs or_NaN_def falsy_def)
  have 3: "results s_words SG = None" "results s_words AE = None" "results s_words EU = None"
    by (simp_all add: check_def s_words_def initial_state_def parse_defs or_NaN_def falsy_def
        fl_def)
  have f0: "amountIDR s0 = lit ''240000000''" "idrPerSGD s0 = lit ''12000''" "idrPerAED s0 = []"
    "idrPerEUR s0 = []"
    by (simp_all add: s0_def initial_state_def)
  have fw: "amountIDR s_words = lit ''100''" "idrPerSGD s_words = lit ''abc''"
    "idrPerAED s_words = lit ''0''" "idrPerEUR s_words = []"
    by (simp_all add: s_words_def initial_state_def)
  have a: "results_js (Str (lit ''240000000'')) (Str (lit ''12000'')) (Str []) (Str [])
   = Inr (Obj [(lit ''SG'', Obj [(lit ''converted'', Num (Fin 20000)), (lit ''needsDecl'', Bool True),
                                  (lit ''maxBeforeDeclIDR'', Num (Fin 240000000))]),
               (lit ''AE'', Null), (lit ''EU'', Null)])"
    using evaluator_never_raises[of s0 SG, THEN conjunct1] unfolding f0 1 2 by simp
  have b: "results_js (Str (lit ''100'')) (Str (lit ''abc'')) (Str (lit ''0'')) (Str [])
     = Inr (Obj [(lit ''SG'', Null), (lit ''AE'', Null), (lit ''EU'', Null)])"
    using evaluator_never_raises[of s_words SG, THEN conjunct1] unfolding fw 3 by simp
  have c: "results (s0\<lparr>fetching := True, activeTab := EU, fetchError := Some (lit ''x'')\<rparr>) SG
     = results s0 SG"
    using evaluator_never_raises[of "s0\<lparr>fetching := True, activeTab := EU, fetchError := Some (lit ''x'')\<rparr>" SG,
        THEN conjunct2]
      evaluator_never_raises[of s0 SG, THEN conjunct2]
    by simp
  show ?thesis by (intro conjI) (rule a b c)+
qed

lemma idr_eq: "idr s = fl (of_nat (digits_val 10 (filter is_digit (amountIDR s))))"
  unfolding idr_def by (rule js_Number_digits) (simp add: list_all_iff)

lemma fl_of_nat:
  assumes "n \<le> 2 ^ 53"
  shows "fl (of_nat n) = Fin (of_nat n)"
proof -
  have "int n \<le> int (2 ^ 53)" using assms by (simp only: of_nat_le_iff)
  then have "\<bar>int n\<bar> \<le> 2 ^ 53" by simp
  from fl_of_int[OF this] show ?thesis by simp
qed

text \<open>
  Claim C10, as the code has it. The parsed amount is \<^verbatim>\<open>Number\<close> of the digits of the text
  in their order: the binary64 value nearest to the integer they denote. Up to \<open>2 ^ 53\<close>
  it is that integer; in every case it is a non-negative integer or \<^verbatim>\<open>Infinity\<close>, never
  negative and never fractional.
\<close>

theorem idr_digits:
  "idr s = fl (of_nat (digits_val 10 (filter is_digit (amountIDR s))))
   \<and> (digits_val 10 (filter is_digit (amountIDR s)) \<le> 2 ^ 53
        \<longrightarrow> idr s = Fin (of_nat (digits_val 10 (filter is_digit (amountIDR s)))))
   \<and> (idr s = PInf \<or> (\<exists>m::nat. idr s = Fin (of_nat m)))"
  using fl_of_nat_cases[of "digits_val 10 (filter is_digit (amountIDR s))"]
  by (simp add: idr_eq fl_of_nat)

theorem idr_digits_witness:
  "digits_val 10 (filter is_digit (amountIDR (initial_state\<lparr>amountIDR := lit ''12.5''\<rparr>))) = 125
   \<and> idr (initial_state\<lparr>amountIDR := lit ''12.5''\<rparr>) = Fin 125
   \<and> digits_val 10 (filter is_digit (amountIDR (initial_state\<lparr>amountIDR := lit ''-500''\<rparr>))) = 500
   \<and> idr (initial_state\<lparr>amountIDR := lit ''-500''\<rparr>) = Fin 500"
proof -
  have 1: "digits_val 10 (filter is_digit (amountIDR (initial_state\<lparr>amountIDR := lit ''12.5''\<rparr>))) = 125"
    by (simp add: lit_def is_digit_def digits_val_def digit_of_def)
  have 2: "digits_val 10 (filter is_digit (amountIDR (initial_state\<lparr>amountIDR := lit ''-500''\<rparr>))) = 500"
    by (simp add: lit_def is_digit_def digits_val_def digit_of_def)
  show ?thesis
    using idr_digits[of "initial_state\<lparr>amountIDR := lit ''12.5''\<rparr>"]
      idr_digits[of "initial_state\<lparr>amountIDR := lit ''-500''\<rparr>"]
    unfolding 1 2 by (simp add: fl_numeral)
qed

lemma fl_above_2_53: "fl 9007199254740993 = Fin 9007199254740992"
proof -
  have "fl 9007199254740993
        = (let q = 2 powi (max 53 (- 1022) - 52);
               y = of_int (round_even (\<bar>9007199254740993\<bar> / q)) * q
           in if 2 powi 1024 \<le> y then (if 0 < (9007199254740993::rat) then PInf else NInf)
              else Fin (sgn 9007199254740993 * y))"
    by (rule fl_eval) simp_all
  also have "\<dots> = Fin 9007199254740992"
  proof -
    have "\<lfloor>(9007199254740993::rat) / 2\<rfloor> = 4503599627370496"
      by (simp add: floor_eq_iff)
    then have "round_even (9007199254740993 / 2) = 4503599627370496"
      by (simp add: round_even_def)
    then show ?thesis by simp
  qed
  finally show ?thesis .
qed

text \<open>
  Claim C10 as stated fails above \<open>2 ^ 53\<close>: the digits \<^verbatim>\<open>9007199254740993\<close> are parsed as
  \<open>9007199254740992\<close>, the nearest binary64 value.
\<close>

theorem idr_rounds_large:
  "digits_val 10 (filter is_digit (amountIDR s_large)) = 9007199254740993
   \<and> idr s_large = Fin 9007199254740992
   \<and> idr s_large \<noteq> Fin (of_nat (digits_val 10 (filter is_digit (amountIDR s_large))))"
proof -
  have 1: "digits_val 10 (filter is_digit (amountIDR s_large)) = 9007199254740993"
    by (simp add: s_large_def lit_def is_digit_def digits_val_def digit_of_def)
  show ?thesis
    unfolding idr_eq 1 by (simp add: fl_above_2_53)
qed

section \<open>Facts about the rate fetch\<close>

lemma rejections_empty_iff:
  "[e. Rejects e \<leftarrow> ps] = [] \<longleftrightarrow> (\<forall>p \<in> set ps. \<exists>v. p = Resolves v)"
  by (induction ps) (auto split: promise.splits)

lemma rejections_set: "e \<in> set [e. Rejects e \<leftarrow> ps] \<longleftrightarrow> Rejects e \<in> set ps"
  by (induction ps) (auto split: promise.splits)

lemma resolved_map: "[v. Resolves v \<leftarrow> map Resolves vs] = vs"
  by (induction vs) auto

lemma set_settle_seq: "set (settle_seq order ps) = set ps"
proof -
  have "set (filter (\<lambda>i. i < length ps) (order @ [0..<length ps])) = {0..<length ps}"
    by auto
  then have "set (settle_seq order ps) = (!) ps ` {0..<length ps}"
    unfolding settle_seq_def set_map by simp
  then show ?thesis by (simp add: set_conv_nth image_def Bex_def conj_commute)
qed

lemma Promise_all_Resolves: "Promise_all order (map Resolves vs) = Resolves vs"
proof -
  have h: "[e. Rejects e \<leftarrow> settle_seq order (map Resolves vs)] = []"
    unfolding rejections_empty_iff set_settle_seq by auto
  show ?thesis unfolding Promise_all_def h resolved_map by simp
qed

lemma Promise_all_Rejects:
  assumes "Rejects e0 \<in> set ps"
  shows "\<exists>e. Rejects e \<in> set ps \<and> Promise_all order ps = Rejects e"
proof -
  have ne: "[e. Rejects e \<leftarrow> settle_seq order ps] \<noteq> []"
    unfolding rejections_empty_iff set_settle_seq using assms by auto
  then obtain e es where es: "[e. Rejects e \<leftarrow> settle_seq order ps] = e # es"
    by (cases "[e. Rejects e \<leftarrow> settle_seq order ps]") auto
  then have "e \<in> set [e. Rejects e \<leftarrow> settle_seq order ps]" by simp
  then have "Rejects e \<in> set ps" unfolding rejections_set set_settle_seq .
  moreover have "Promise_all order ps = Rejects e" unfolding Promise_all_def es by simp
  ultimately show ?thesis by blast
qed

lemma collect_entries:
  "collect [a, b, c] SGD = rate_in a" "collect [a, b, c] AED = rate_in b"
  "collect [a, b, c] EUR = rate_in c"
  by (auto simp: collect_def symbols_def split: option.splits json.splits)

lemma Currency_in_symbols: "c \<in> set symbols"
  by (cases c) (simp_all add: symbols_def)

lemma rejection_cases:
  obtains (fetch_rejects) e where "p = Rejects e" "rejection p = Some e"
  | (body_rejects) st e where "p = Resolves (Response st (Rejects e))" "rejection p = Some e"
  | (resolves) st j where "p = Resolves (Response st (Resolves j))" "rejection p = None"
proof (cases p)
  case (Rejects e)
  then show ?thesis using fetch_rejects by simp
next
  case (Resolves r)
  then show ?thesis
    using body_rejects resolves by (cases r; cases "json_body r") auto
qed

lemma loadRates_fetch_rejects:
  assumes "fetch c0 = Rejects e0"
  shows "\<exists>c e. fetch c = Rejects e
           \<and> loadRates fetch order1 order2 now s
               = s\<lparr>fetching := False, fetchError := Some (error_text e)\<rparr>"
proof -
  have "Rejects e0 \<in> set (map fetch symbols)"
    using assms Currency_in_symbols[of c0] by (metis image_eqI set_map)
  then obtain e where e: "Rejects e \<in> set (map fetch symbols)"
      "Promise_all order1 (map fetch symbols) = Rejects e"
    using Promise_all_Rejects by blast
  from e(1) obtain c where "fetch c = Rejects e" by auto
  moreover have "loadRates fetch order1 order2 now s
                   = s\<lparr>fetching := False, fetchError := Some (error_text e)\<rparr>"
    by (simp add: loadRates_def e(2) catch_block_def)
  ultimately show ?thesis by blast
qed

lemma loadRates_body_rejects:
  assumes "\<And>c. fetch c = Resolves (r c)" and "json_body (r c0) = Rejects e0"
  shows "\<exists>c e. json_body (r c) = Rejects e
           \<and> loadRates fetch order1 order2 now s
               = s\<lparr>fetching := False, fetchError := Some (error_text e)\<rparr>"
proof -
  have "fetch = (\<lambda>c. Resolves (r c))" using assms(1) by auto
  then have 1: "Promise_all order1 (map fetch symbols) = Resolves (map r symbols)"
    using Promise_all_Resolves[of order1 "map r symbols"] by (simp add: comp_def)
  have "Rejects e0 \<in> set (map json_body (map r symbols))"
    using assms(2) Currency_in_symbols[of c0] by (metis (no_types, lifting) image_eqI list.map_comp set_map comp_apply)
  then obtain e where e: "Rejects e \<in> set (map json_body (map r symbols))"
      "Promise_all order2 (map json_body (map r symbols)) = Rejects e"
    using Promise_all_Rejects by blast
  from e(1) obtain c where "json_body (r c) = Rejects e" by auto
  moreover have "loadRates fetch order1 order2 now s
                   = s\<lparr>fetching := False, fetchError := Some (error_text e)\<rparr>"
    by (simp add: loadRates_def 1 e(2)[unfolded list.map_comp] catch_block_def)
  ultimately show ?thesis by blast
qed

lemma loadRates_resolved:
  assumes "\<And>c. fetch c = Resolves (Response (st c) (Resolves (j c)))"
  shows "loadRates fetch order1 order2 now s
         = (if falsy_entry (rate_in (j SGD)) \<or> falsy_entry (rate_in (j AED))
               \<or> falsy_entry (rate_in (j EUR))
            then s\<lparr>fetching := False, fetchError := Some incomplete_message\<rparr>
            else s\<lparr>idrPerSGD := js_String (Math_round (the (rate_in (j SGD)))),
                   idrPerAED := js_String (Math_round (the (rate_in (j AED)))),
                   idrPerEUR := js_String (Math_round (the (rate_in (j EUR)))),
                   fetching := False, fetchError := None, lastFetchedAt := Some now\<rparr>)"
proof -
  have "fetch = (\<lambda>c. Resolves (Response (st c) (Resolves (j c))))" using assms by auto
  then have 1: "Promise_all order1 (map fetch symbols)
           = Resolves (map (\<lambda>c. Response (st c) (Resolves (j c))) symbols)"
    using Promise_all_Resolves[of order1 "map (\<lambda>c. Response (st c) (Resolves (j c))) symbols"]
    by (simp add: comp_def)
  have 2: "Promise_all order2 (map (json_body \<circ> (\<lambda>c. Response (st c) (Resolves (j c)))) symbols)
           = Resolves [j SGD, j AED, j EUR]"
    using Promise_all_Resolves[of order2 "map j symbols"] by (simp add: comp_def symbols_def)
  have 3: "error_text (Thrown (Some incomplete_message)) = incomplete_message"
    by (simp add: error_text_def incomplete_message_def)
  show ?thesis
    by (simp add: loadRates_def 1 2 3 collect_entries catch_block_def del: rate_in.simps)
qed

lemma loadRates_rejected:
  assumes "rejection (fetch c0) = Some e0"
  shows "\<exists>c e. rejection (fetch c) = Some e
           \<and> loadRates fetch order1 order2 now s
               = s\<lparr>fetching := False, fetchError := Some (error_text e)\<rparr>"
proof (cases "\<exists>c e. fetch c = Rejects e")
  case True
  then obtain c1 e1 where "fetch c1 = Rejects e1" by blast
  from loadRates_fetch_rejects[of fetch c1 e1 order1 order2 now s, OF this]
  obtain c e where "fetch c = Rejects e"
    "loadRates fetch order1 order2 now s = s\<lparr>fetching := False, fetchError := Some (error_text e)\<rparr>"
    by blast
  moreover from this(1) have "rejection (fetch c) = Some e" by simp
  ultimately show ?thesis by blast
next
  case False
  define r where "r c = (case fetch c of Resolves x \<Rightarrow> x)" for c
  have r: "fetch c = Resolves (r c)" for c
    using False by (cases "fetch c") (auto simp: r_def)
  have "json_body (r c0) = Rejects e0"
    using assms by (cases "fetch c0" rule: rejection_cases) (use r[of c0] in auto)
  from loadRates_body_rejects[of fetch r c0 e0 order1 order2 now s, OF r this]
  obtain c e where "json_body (r c) = Rejects e"
    "loadRates fetch order1 order2 now s = s\<lparr>fetching := False, fetchError := Some (error_text e)\<rparr>"
    by blast
  moreover from this(1) have "rejection (fetch c) = Some e"
    by (cases "r c") (simp add: r[of c])
  ultimately show ?thesis by blast
qed

lemma loadRates_settled:
  assumes "\<And>c. rejection (fetch c) = None"
  shows "loadRates fetch order1 order2 now s
         = (if falsy_entry (rate_of (fetch SGD)) \<or> falsy_entry (rate_of (fetch AED))
               \<or> falsy_entry (rate_of (fetch EUR))
            then s\<lparr>fetching := False, fetchError := Some incomplete_message\<rparr>
            else s\<lparr>idrPerSGD := js_String (Math_round (the (rate_of (fetch SGD)))),
                   idrPerAED := js_String (Math_round (the (rate_of (fetch AED)))),
                   idrPerEUR := js_String (Math_round (the (rate_of (fetch EUR)))),
                   fetching := False, fetchError := None, lastFetchedAt := Some now\<rparr>)"
proof -
  define j where "j c = (case fetch c of Resolves (Response n (Resolves x)) \<Rightarrow> x)" for c
  define st where "st c = (case fetch c of Resolves r \<Rightarrow> status r)" for c
  have j: "fetch c = Resolves (Response (st c) (Resolves (j c)))" for c
    using assms[of c] by (cases "fetch c" rule: rejection_cases) (auto simp: j_def st_def)
  have "rate_of (fetch c) = rate_in (j c)" for c
    by (subst j) simp
  then show ?thesis
    using loadRates_resolved[of fetch st j, OF j, of order1 order2 now s] by simp
qed

section \<open>Evaluating the number to string conversion\<close>

lemma floor_numeral_div: "\<lfloor>(numeral a :: rat) / numeral b\<rfloor> = numeral a div numeral b"
  using floor_divide_of_int_eq[of "numeral a" "numeral b", where ?'a = rat] by simp

lemma shortest_found:
  assumes "candidates x k = c # cs" and "\<And>k'. 1 \<le> k' \<Longrightarrow> k' < k \<Longrightarrow> candidates x k' = []"
    and "1 \<le> k" "k < 18"
  shows "shortest x = (k, foldl (closer x k) c cs)"
proof -
  define f where "f = (\<lambda>k. case candidates x k of [] \<Rightarrow> [] | c # cs \<Rightarrow> [(k, foldl (closer x k) c cs)])"
  have "[1..<k + (18 - k)] = [1..<k] @ [k..<k + (18 - k)]"
    using assms(3) by (rule upt_add_eq_append)
  then have split: "[1..<18] = [1..<k] @ k # [Suc k..<18]"
    using assms(4) by (simp add: upt_conv_Cons)
  have "concat (map f [1..<k]) = []"
    using assms(2) by (auto simp: f_def)
  moreover have "f k = [(k, foldl (closer x k) c cs)]"
    using assms(1) by (simp add: f_def)
  ultimately have "concat (map f [1..<18]) = (k, foldl (closer x k) c cs) # concat (map f [Suc k..<18])"
    unfolding split by simp
  moreover have "shortest x = (case concat (map f [1..<18]) of r # _ \<Rightarrow> r | [] \<Rightarrow> (1, ilog 10 x + 1, 0))"
    unfolding shortest_def f_def
    by (rule arg_cong[where f = "\<lambda>l. case l of [] \<Rightarrow> _ | r # _ \<Rightarrow> r"])
       (auto intro!: arg_cong[where f = concat] split: list.splits)
  ultimately show ?thesis by simp
qed

lemma shortest_two_digits:
  assumes "candidates x 1 = []" and "candidates x 2 = [(n, s)]"
  shows "shortest x = (2, n, s)"
proof -
  have "candidates x k' = []" if "1 \<le> k'" "k' < 2" for k'
  proof -
    have "k' = 1" using that by simp
    then show ?thesis using assms(1) by simp
  qed
  then show ?thesis
    using shortest_found[of x 2 "(n, s)" "[]"] assms(2) by simp
qed

lemma shortest_one_digit:
  assumes "candidates x 1 = [(n, s)]"
  shows "shortest x = (1, n, s)"
  using shortest_found[of x 1 "(n, s)" "[]"] assms by simp

lemmas toString_defs = candidates_def ilog_def compute_floorlog fl_numeral floor_numeral_div

lemma js_String_12000: "js_String (Fin 12000) = lit ''12000''"
proof -
  have "shortest 12000 = (2, 5, 12)"
    by (rule shortest_two_digits) (simp_all add: toString_defs)
  then show ?thesis by (simp add: toString_pos_def digits10.simps lit_def numeral_3_eq_3 numeral_2_eq_2)
qed

lemma js_String_4200: "js_String (Fin 4200) = lit ''4200''"
proof -
  have "shortest 4200 = (2, 4, 42)"
    by (rule shortest_two_digits) (simp_all add: toString_defs)
  then show ?thesis by (simp add: toString_pos_def digits10.simps lit_def numeral_3_eq_3 numeral_2_eq_2)
qed

lemma js_String_17000: "js_String (Fin 17000) = lit ''17000''"
proof -
  have "shortest 17000 = (2, 5, 17)"
    by (rule shortest_two_digits) (simp_all add: toString_defs)
  then show ?thesis by (simp add: toString_pos_def digits10.simps lit_def numeral_3_eq_3 numeral_2_eq_2)
qed

lemma js_String_minus_3: "js_String (Fin (- 3)) = lit ''-3''"
proof -
  have "shortest 3 = (1, 1, 3)"
    by (rule shortest_one_digit) (simp add: toString_defs)
  then show ?thesis by (simp add: toString_pos_def digits10.simps lit_def numeral_3_eq_3 numeral_2_eq_2)
qed

section \<open>Example runs of the rate fetch\<close>

text \<open>All runs start in \<open>s0\<close>, whose rate for SGD is the text \<^verbatim>\<open>12000\<close>.\<close>

lemmas net_defs = answers_def body_with_def idrPer_def lit_def

lemmas run_defs = loadRates_def Promise_all_def settle_seq_def symbols_def catch_block_def
  error_text_def collect_def

lemma run_down_first:
  "loadRates net_down [] [] 9 s0 = s0\<lparr>fetching := False, fetchError := Some (lit ''Failed to fetch'')\<rparr>"
  by (simp add: run_defs net_defs)

lemma run_down_last:
  "loadRates net_down [2, 1, 0] [] 9 s0 = s0\<lparr>fetching := False, fetchError := Some fallback_message\<rparr>"
  by (simp add: run_defs net_defs)

lemma run_garbled:
  "loadRates net_garbled [] [] 9 s0 = s0\<lparr>fetching := False, fetchError := Some (lit ''Unexpected token'')\<rparr>"
  by (simp add: run_defs net_defs)

lemma run_partial:
  "loadRates net_partial [] [] 9 s0 = s0\<lparr>fetching := False, fetchError := Some incomplete_message\<rparr>"
  by (simp add: run_defs net_defs falsy_def incomplete_message_def)

lemma run_zero:
  "loadRates net_zero [] [] 9 s0 = s0\<lparr>fetching := False, fetchError := Some incomplete_message\<rparr>"
  by (simp add: run_defs net_defs falsy_def incomplete_message_def)

lemma run_ok:
  "loadRates net_ok [] [] 9 s0
   = s0\<lparr>idrPerSGD := lit ''12000'', idrPerAED := lit ''4200'', idrPerEUR := lit ''17000'',
         fetching := False, fetchError := None, lastFetchedAt := Some 9\<rparr>"
proof -
  have "loadRates net_ok [] [] 9 s0
   = s0\<lparr>idrPerSGD := js_String (Fin 12000), idrPerAED := js_String (Fin 4200),
         idrPerEUR := js_String (Fin 17000),
         fetching := False, fetchError := None, lastFetchedAt := Some 9\<rparr>"
    by (simp add: run_defs net_defs falsy_def floor_numeral_div del: js_String.simps)
  then show ?thesis by (simp only: js_String_12000 js_String_4200 js_String_17000)
qed

lemma run_negative:
  "loadRates net_negative [] [] 9 s0
   = s0\<lparr>idrPerSGD := lit ''-3'', idrPerAED := lit ''4200'', idrPerEUR := lit ''17000'',
         fetching := False, fetchError := None, lastFetchedAt := Some 9\<rparr>"
proof -
  have "loadRates net_negative [] [] 9 s0
   = s0\<lparr>idrPerSGD := js_String (Fin (- 3)), idrPerAED := js_String (Fin 4200),
         idrPerEUR := js_String (Fin 17000),
         fetching := False, fetchError := None, lastFetchedAt := Some 9\<rparr>"
    by (simp add: run_defs net_defs falsy_def floor_numeral_div del: js_String.simps)
  then show ?thesis by (simp only: js_String_minus_3 js_String_4200 js_String_17000)
qed

section \<open>Properties of the rate fetch\<close>

lemma failed_run_keeps:
  assumes "s' = s\<lparr>fetching := False, fetchError := Some m\<rparr>"
  shows "idrPerSGD s' = idrPerSGD s \<and> idrPerAED s' = idrPerAED s \<and> idrPerEUR s' = idrPerEUR s
         \<and> (\<forall>c. rates s' c = rates s c) \<and> fetchError s' = Some m
         \<and> lastFetchedAt s' = lastFetchedAt s \<and> \<not> fetching s'"
proof -
  have "rates s' c = rates s c" for c using assms by (cases c) simp_all
  then show ?thesis using assms by simp
qed

lemma loadRates_failure:
  assumes "rate_of (fetch c0) = None"
  shows "\<exists>m. loadRates fetch order1 order2 now s = s\<lparr>fetching := False, fetchError := Some m\<rparr>"
proof (cases "\<exists>c. rejection (fetch c) \<noteq> None")
  case True
  then obtain c1 e1 where "rejection (fetch c1) = Some e1" by auto
  from loadRates_rejected[of fetch c1 e1 order1 order2 now s, OF this] show ?thesis by blast
next
  case False
  then have none: "rejection (fetch c) = None" for c by simp
  have "falsy_entry (rate_of (fetch c0))" using assms by simp
  then have "falsy_entry (rate_of (fetch SGD)) \<or> falsy_entry (rate_of (fetch AED))
             \<or> falsy_entry (rate_of (fetch EUR))"
    by (cases c0) simp_all
  then show ?thesis
    using loadRates_settled[of fetch order1 order2 now s, OF none] by auto
qed

text \<open>
  Claim C2. When one of the three lookups delivers no numeric rate (its request rejects, the
  reading of its body rejects, or the body has no number at \<^verbatim>\<open>rates.IDR\<close>), \<^verbatim>\<open>loadRates\<close>
  ends with one error message and leaves the three rate texts, the rates computed from them
  and the time of the last fetch as they were, whatever the other lookups delivered and in
  whatever order the promises settle.
\<close>

theorem fetch_failure_keeps_rates:
  assumes "rate_of (fetch c0) = None"
  shows "idrPerSGD (loadRates fetch order1 order2 now s) = idrPerSGD s
         \<and> idrPerAED (loadRates fetch order1 order2 now s) = idrPerAED s
         \<and> idrPerEUR (loadRates fetch order1 order2 now s) = idrPerEUR s
         \<and> (\<forall>c. rates (loadRates fetch order1 order2 now s) c = rates s c)
         \<and> (\<exists>m. fetchError (loadRates fetch order1 order2 now s) = Some m)
         \<and> lastFetchedAt (loadRates fetch order1 order2 now s) = lastFetchedAt s
         \<and> \<not> fetching (loadRates fetch order1 order2 now s)"
proof -
  obtain m where "loadRates fetch order1 order2 now s = s\<lparr>fetching := False, fetchError := Some m\<rparr>"
    using loadRates_failure[of fetch c0 order1 order2 now s, OF assms] by blast
  from failed_run_keeps[OF this] show ?thesis by blast
qed

theorem fetch_failure_keeps_rates_witness:
  "rate_of (net_down AED) = None \<and> rate_of (net_down SGD) = Some (Fin 15000)
   \<and> idrPerSGD (loadRates net_down [] [] 9 s0) = lit ''12000''
   \<and> rates (loadRates net_down [] [] 9 s0) SGD = Fin 12000
   \<and> fetchError (loadRates net_down [] [] 9 s0) = Some (lit ''Failed to fetch'')
   \<and> rate_of (net_partial AED) = None
   \<and> idrPerSGD (loadRates net_partial [] [] 9 s0) = lit ''12000''
   \<and> fetchError (loadRates net_partial [] [] 9 s0) = Some incomplete_message"
proof -
  have 1: "rate_of (net_down AED) = None" by simp
  have 2: "rate_of (net_partial AED) = None" by (simp add: net_defs)
  have 3: "rate_of (net_down SGD) = Some (Fin 15000)" by (simp add: net_defs)
  have 4: "idrPerSGD s0 = lit ''12000''" by (simp add: s0_def initial_state_def)
  have 5: "fetchError (loadRates net_down [] [] 9 s0) = Some (lit ''Failed to fetch'')"
    unfolding run_down_first by simp
  have 6: "fetchError (loadRates net_partial [] [] 9 s0) = Some incomplete_message"
    unfolding run_partial by simp
  have "idrPerSGD (loadRates net_down [] [] 9 s0) = lit ''12000''"
    "rates (loadRates net_down [] [] 9 s0) SGD = Fin 12000"
    using fetch_failure_keeps_rates[of net_down AED "[]" "[]" 9 s0, OF 1] 4 rates_s0 by metis+
  moreover have "idrPerSGD (loadRates net_partial [] [] 9 s0) = lit ''12000''"
    using fetch_failure_keeps_rates[of net_partial AED "[]" "[]" 9 s0, OF 2] 4 by metis
  ultimately show ?thesis using 1 2 3 5 6 by blast
qed

lemma rejections_none: "(\<forall>p \<in> set ps. \<forall>e. p \<noteq> Rejects e) \<Longrightarrow> [e. Rejects e \<leftarrow> ps] = []"
  by (induction ps) (auto split: promise.splits)

lemma Promise_all_first:
  assumes "order @ [0..<length ps] = pre @ i # post" and "i < length ps" and "ps ! i = Rejects e"
    and "\<forall>k \<in> set pre. k < length ps \<longrightarrow> (\<forall>e'. ps ! k \<noteq> Rejects e')"
  shows "Promise_all order ps = Rejects e"
proof -
  define A where "A = map ((!) ps) (filter (\<lambda>i. i < length ps) pre)"
  define B where "B = map ((!) ps) (filter (\<lambda>i. i < length ps) post)"
  have s: "settle_seq order ps = A @ Rejects e # B"
    unfolding settle_seq_def assms(1) A_def B_def using assms(2,3) by simp
  have none: "[e. Rejects e \<leftarrow> A] = []"
    by (rule rejections_none) (use assms(4) in \<open>auto simp: A_def\<close>)
  have "[e. Rejects e \<leftarrow> settle_seq order ps] = e # [e. Rejects e \<leftarrow> B]"
    unfolding s using none by simp
  then show ?thesis unfolding Promise_all_def by simp
qed

lemma settle_seq_map: "settle_seq order (map f ps) = map f (settle_seq order ps)"
  unfolding settle_seq_def by simp

lemma rejections_map: "[e. Rejects e \<leftarrow> map (map_promise f) ps] = [e. Rejects e \<leftarrow> ps]"
  by (induction ps) (auto split: promise.splits)

lemma resolved_map_promise: "[v. Resolves v \<leftarrow> map (map_promise f) ps] = map f [v. Resolves v \<leftarrow> ps]"
  by (induction ps) (auto split: promise.splits)

lemma Promise_all_map:
  "Promise_all order (map (map_promise f) ps) = map_promise (map f) (Promise_all order ps)"
proof -
  define R where "R = [e. Rejects e \<leftarrow> settle_seq order ps]"
  show ?thesis
    unfolding Promise_all_def settle_seq_map rejections_map resolved_map_promise R_def[symmetric]
    by (cases R) simp_all
qed

lemma with_status_map: "with_status st = map_promise (\<lambda>r. Response st (json_body r))"
proof
  fix p show "with_status st p = map_promise (\<lambda>r. Response st (json_body r)) p"
    by (cases p) simp_all
qed

lemma loadRates_with_status:
  "loadRates (\<lambda>c. with_status st (fetch c)) order1 order2 now s = loadRates fetch order1 order2 now s"
proof -
  have 1: "map (\<lambda>c. with_status st (fetch c)) symbols
           = map (map_promise (\<lambda>r. Response st (json_body r))) (map fetch symbols)"
    by (simp add: with_status_map)
  show ?thesis
    unfolding loadRates_def 1 Promise_all_map
    by (cases "Promise_all order1 (map fetch symbols)") (simp_all add: comp_def)
qed

lemma loadRates_status_irrelevant:
  assumes "\<forall>c. with_status 0 (fetch' c) = with_status 0 (fetch c)"
  shows "loadRates fetch' order1 order2 now s = loadRates fetch order1 order2 now s"
  using loadRates_with_status[of 0 fetch' order1 order2 now s]
    loadRates_with_status[of 0 fetch order1 order2 now s] assms by simp

lemma loadRates_first_request:
  assumes "order1 @ [0..<length symbols] = pre @ i # post" and "i < length symbols"
    and "fetch (symbols ! i) = Rejects e"
    and "\<forall>k \<in> set pre. k < length symbols \<longrightarrow> (\<forall>e'. fetch (symbols ! k) \<noteq> Rejects e')"
  shows "loadRates fetch order1 order2 now s = s\<lparr>fetching := False, fetchError := Some (error_text e)\<rparr>"
proof -
  have "Promise_all order1 (map fetch symbols) = Rejects e"
    by (rule Promise_all_first[where pre = pre and i = i and post = post])
       (use assms in simp_all)
  then show ?thesis by (simp add: loadRates_def catch_block_def)
qed

lemma loadRates_first_body:
  assumes "\<forall>c. \<exists>r. fetch c = Resolves r"
    and "order2 @ [0..<length symbols] = pre @ i # post" and "i < length symbols"
    and "fetch (symbols ! i) = Resolves (Response st (Rejects e))"
    and "\<forall>k \<in> set pre. k < length symbols \<longrightarrow> rejection (fetch (symbols ! k)) = None"
  shows "loadRates fetch order1 order2 now s = s\<lparr>fetching := False, fetchError := Some (error_text e)\<rparr>"
proof -
  define r where "r c = (case fetch c of Resolves x \<Rightarrow> x)" for c
  have r: "fetch c = Resolves (r c)" for c
    using assms(1)[rule_format, of c] by (auto simp: r_def)
  then have "fetch = (\<lambda>c. Resolves (r c))" by auto
  then have 1: "Promise_all order1 (map fetch symbols) = Resolves (map r symbols)"
    using Promise_all_Resolves[of order1 "map r symbols"] by (simp add: comp_def)
  have 2: "Promise_all order2 (map json_body (map r symbols)) = Rejects e"
  proof (rule Promise_all_first[where pre = pre and i = i and post = post])
    show "order2 @ [0..<length (map json_body (map r symbols))] = pre @ i # post"
      using assms(2) by simp
    show "i < length (map json_body (map r symbols))" using assms(3) by simp
    show "map json_body (map r symbols) ! i = Rejects e"
      using assms(3,4) r[of "symbols ! i"] by simp
    show "\<forall>k\<in>set pre. k < length (map json_body (map r symbols))
            \<longrightarrow> (\<forall>e'. map json_body (map r symbols) ! k \<noteq> Rejects e')"
    proof (intro ballI impI allI)
      fix k e' assume k: "k \<in> set pre" "k < length (map json_body (map r symbols))"
      then have "rejection (Resolves (r (symbols ! k))) = None"
        using assms(5) r[of "symbols ! k"] by auto
      then show "map json_body (map r symbols) ! k \<noteq> Rejects e'"
        using k(2) by (cases "r (symbols ! k)") auto
    qed
  qed
  show ?thesis by (simp add: loadRates_def 1 2[unfolded list.map_comp] catch_block_def)
qed

lemma run_refused:
  "loadRates net_refused [] [] 9 s0
   = s0\<lparr>idrPerSGD := lit ''12000'', idrPerAED := lit ''4200'', idrPerEUR := lit ''17000'',
         fetching := False, fetchError := None, lastFetchedAt := Some 9\<rparr>"
proof -
  have "loadRates net_refused [] [] 9 s0
   = s0\<lparr>idrPerSGD := js_String (Fin 12000), idrPerAED := js_String (Fin 4200),
         idrPerEUR := js_String (Fin 17000),
         fetching := False, fetchError := None, lastFetchedAt := Some 9\<rparr>"
    by (simp add: run_defs net_defs falsy_def floor_numeral_div del: js_String.simps)
  then show ?thesis by (simp only: js_String_12000 js_String_4200 js_String_17000)
qed

text \<open>
  Claim C8, as the code has it. When every lookup settles with a body and some rate is
  missing or falsy, the message is the literal of the \<^verbatim>\<open>throw\<close>, the German words for
  incomplete rates (\<open>incomplete_message\<close>, with the code unit 228 for the a-umlaut). When a
  request rejects, the message is that of the request that rejects first in time (the
  request \<open>i\<close>, when the requests \<open>pre\<close> that settle before it do not reject); when all
  requests resolve and the reading of a body rejects, it is that of the body that rejects
  first in time; in both cases \<^verbatim>\<open>Konnte Kurse nicht laden.\<close> stands in for a missing or
  empty message. So whenever a lookup rejects, the message is that of a rejecting lookup.
  The HTTP status of a response is never read: two runs whose lookups differ in the status
  of the responses only end in the same state.
\<close>

theorem fetch_error_message:
  "((\<forall>c. rejection (fetch c) = None) \<and> (\<exists>c. falsy_entry (rate_of (fetch c)))
      \<longrightarrow> fetchError (loadRates fetch order1 order2 now s) = Some incomplete_message)
   \<and> (order1 @ [0..<length symbols] = pre @ i # post \<and> i < length symbols
        \<and> fetch (symbols ! i) = Rejects e
        \<and> (\<forall>k \<in> set pre. k < length symbols \<longrightarrow> (\<forall>e'. fetch (symbols ! k) \<noteq> Rejects e'))
      \<longrightarrow> fetchError (loadRates fetch order1 order2 now s)
            = Some (case message e of
                      None \<Rightarrow> fallback_message
                    | Some m \<Rightarrow> if m = [] then fallback_message else m))
   \<and> ((\<forall>c. \<exists>r. fetch c = Resolves r)
        \<and> order2 @ [0..<length symbols] = pre @ i # post \<and> i < length symbols
        \<and> fetch (symbols ! i) = Resolves (Response st (Rejects e))
        \<and> (\<forall>k \<in> set pre. k < length symbols \<longrightarrow> rejection (fetch (symbols ! k)) = None)
      \<longrightarrow> fetchError (loadRates fetch order1 order2 now s)
            = Some (case message e of
                      None \<Rightarrow> fallback_message
                    | Some m \<Rightarrow> if m = [] then fallback_message else m))
   \<and> ((\<exists>c. rejection (fetch c) \<noteq> None)
      \<longrightarrow> (\<exists>c e. rejection (fetch c) = Some e
            \<and> fetchError (loadRates fetch order1 order2 now s)
                = Some (case message e of
                          None \<Rightarrow> fallback_message
                        | Some m \<Rightarrow> if m = [] then fallback_message else m)))
   \<and> ((\<forall>c. with_status 0 (fetch' c) = with_status 0 (fetch c))
      \<longrightarrow> loadRates fetch' order1 order2 now s = loadRates fetch order1 order2 now s)"
proof (intro conjI impI)
  assume a: "(\<forall>c. rejection (fetch c) = None) \<and> (\<exists>c. falsy_entry (rate_of (fetch c)))"
  then have none: "rejection (fetch c) = None" for c by simp
  from a obtain c0 where "falsy_entry (rate_of (fetch c0))" by blast
  then have "falsy_entry (rate_of (fetch SGD)) \<or> falsy_entry (rate_of (fetch AED))
             \<or> falsy_entry (rate_of (fetch EUR))"
    by (cases c0) simp_all
  then show "fetchError (loadRates fetch order1 order2 now s) = Some incomplete_message"
    using loadRates_settled[of fetch order1 order2 now s, OF none] by auto
next
  assume a: "order1 @ [0..<length symbols] = pre @ i # post \<and> i < length symbols
        \<and> fetch (symbols ! i) = Rejects e
        \<and> (\<forall>k \<in> set pre. k < length symbols \<longrightarrow> (\<forall>e'. fetch (symbols ! k) \<noteq> Rejects e'))"
  have "loadRates fetch order1 order2 now s = s\<lparr>fetching := False, fetchError := Some (error_text e)\<rparr>"
    by (rule loadRates_first_request[where pre = pre and i = i and post = post]) (use a in simp_all)
  then show "fetchError (loadRates fetch order1 order2 now s)
            = Some (case message e of
                      None \<Rightarrow> fallback_message
                    | Some m \<Rightarrow> if m = [] then fallback_message else m)"
    unfolding error_text_def by simp
next
  assume a: "(\<forall>c. \<exists>r. fetch c = Resolves r)
        \<and> order2 @ [0..<length symbols] = pre @ i # post \<and> i < length symbols
        \<and> fetch (symbols ! i) = Resolves (Response st (Rejects e))
        \<and> (\<forall>k \<in> set pre. k < length symbols \<longrightarrow> rejection (fetch (symbols ! k)) = None)"
  have "loadRates fetch order1 order2 now s = s\<lparr>fetching := False, fetchError := Some (error_text e)\<rparr>"
    by (rule loadRates_first_body[where pre = pre and i = i and post = post and st = st])
       (use a in simp_all)
  then show "fetchError (loadRates fetch order1 order2 now s)
            = Some (case message e of
                      None \<Rightarrow> fallback_message
                    | Some m \<Rightarrow> if m = [] then fallback_message else m)"
    unfolding error_text_def by simp
next
  assume "\<exists>c. rejection (fetch c) \<noteq> None"
  then obtain c1 e1 where "rejection (fetch c1) = Some e1" by auto
  from loadRates_rejected[of fetch c1 e1 order1 order2 now s, OF this]
  obtain c e where "rejection (fetch c) = Some e"
    "loadRates fetch order1 order2 now s = s\<lparr>fetching := False, fetchError := Some (error_text e)\<rparr>"
    by blast
  then show "\<exists>c e. rejection (fetch c) = Some e
            \<and> fetchError (loadRates fetch order1 order2 now s)
                = Some (case message e of
                          None \<Rightarrow> fallback_message
                        | Some m \<Rightarrow> if m = [] then fallback_message else m)"
    unfolding error_text_def by auto
next
  assume "\<forall>c. with_status 0 (fetch' c) = with_status 0 (fetch c)"
  then show "loadRates fetch' order1 order2 now s = loadRates fetch order1 order2 now s"
    by (rule loadRates_status_irrelevant)
qed

theorem fetch_error_message_witness:
  "(\<forall>c. rejection (net_partial c) = None) \<and> falsy_entry (rate_of (net_partial AED))
   \<and> fetchError (loadRates net_partial [] [] 9 s0) = Some incomplete_message
   \<and> [] @ [0..<length symbols] = [0] @ 1 # [2]
   \<and> net_down (symbols ! 0) = answers (JNum (Fin 15000))
   \<and> net_down (symbols ! 1) = Rejects (Thrown (Some (lit ''Failed to fetch'')))
   \<and> fetchError (loadRates net_down [] [] 9 s0) = Some (lit ''Failed to fetch'')
   \<and> [2, 1, 0] @ [0..<length symbols] = [] @ 2 # [1, 0, 0, 1, 2]
   \<and> net_down (symbols ! 2) = Rejects (Thrown None)
   \<and> fetchError (loadRates net_down [2, 1, 0] [] 9 s0) = Some fallback_message
   \<and> (\<forall>c. \<exists>r. net_garbled c = Resolves r)
   \<and> net_garbled (symbols ! 1)
       = Resolves (Response 200 (Rejects (Thrown (Some (lit ''Unexpected token'')))))
   \<and> fetchError (loadRates net_garbled [] [] 9 s0) = Some (lit ''Unexpected token'')
   \<and> (\<forall>c. with_status 0 (net_refused c) = with_status 0 (net_ok c))
   \<and> loadRates net_refused [] [] 9 s0 = loadRates net_ok [] [] 9 s0"
proof -
  have 1: "rejection (net_partial c) = None" for c by (cases c) (simp_all add: answers_def)
  have 2: "falsy_entry (rate_of (net_partial AED))" by (simp add: net_defs)
  have 3: "[] @ [0..<length symbols] = [0] @ 1 # [2]" by (simp add: symbols_def upt_rec)
  have 4: "net_down (symbols ! 0) = answers (JNum (Fin 15000))"
    "net_down (symbols ! 1) = Rejects (Thrown (Some (lit ''Failed to fetch'')))"
    "net_down (symbols ! 2) = Rejects (Thrown None)"
    by (simp_all add: symbols_def)
  have 5: "[2, 1, 0] @ [0..<length symbols] = [] @ 2 # [1, 0, 0, 1, 2]"
    by (simp add: symbols_def upt_rec)
  have 6: "\<exists>r. net_garbled c = Resolves r" for c by (cases c) (simp_all add: answers_def)
  have 7: "net_garbled (symbols ! 1)
       = Resolves (Response 200 (Rejects (Thrown (Some (lit ''Unexpected token'')))))"
    by (simp add: symbols_def)
  have 8: "with_status 0 (net_refused c) = with_status 0 (net_ok c)" for c
    by (cases c) (simp_all add: answers_def)
  have l: "length symbols = 3" by (simp add: symbols_def)
  have a: "fetchError (loadRates net_partial [] [] 9 s0) = Some incomplete_message"
    by (rule fetch_error_message[of net_partial "[]" "[]" 9 s0, THEN conjunct1, THEN mp])
       (use 1 2 in blast)
  have "fetchError (loadRates net_down [] [] 9 s0)
      = Some (case message (Thrown (Some (lit ''Failed to fetch''))) of
                None \<Rightarrow> fallback_message
              | Some m \<Rightarrow> if m = [] then fallback_message else m)"
  proof (rule fetch_error_message[of net_down "[]" "[]" 9 s0 "[0]" 1 "[2]"
        "Thrown (Some (lit ''Failed to fetch''))", THEN conjunct2, THEN conjunct1, THEN mp],
      intro conjI)
    show "[] @ [0..<length symbols] = [0] @ 1 # [2]" by (rule 3)
    show "1 < length symbols" by (simp add: l)
    show "net_down (symbols ! 1) = Rejects (Thrown (Some (lit ''Failed to fetch'')))" by (rule 4)
    show "\<forall>k \<in> set [0]. k < length symbols \<longrightarrow> (\<forall>e'. net_down (symbols ! k) \<noteq> Rejects e')"
      using 4(1) by (simp add: answers_def)
  qed
  then have b: "fetchError (loadRates net_down [] [] 9 s0) = Some (lit ''Failed to fetch'')"
    by (simp add: lit_def)
  have "fetchError (loadRates net_down [2, 1, 0] [] 9 s0)
      = Some (case message (Thrown None) of
                None \<Rightarrow> fallback_message
              | Some m \<Rightarrow> if m = [] then fallback_message else m)"
  proof (rule fetch_error_message[of net_down "[2, 1, 0]" "[]" 9 s0 "[]" 2 "[1, 0, 0, 1, 2]"
        "Thrown None", THEN conjunct2, THEN conjunct1, THEN mp], intro conjI)
    show "[2, 1, 0] @ [0..<length symbols] = [] @ 2 # [1, 0, 0, 1, 2]" by (rule 5)
    show "2 < length symbols" by (simp add: l)
    show "net_down (symbols ! 2) = Rejects (Thrown None)" by (rule 4)
    show "\<forall>k \<in> set []. k < length symbols \<longrightarrow> (\<forall>e'. net_down (symbols ! k) \<noteq> Rejects e')"
      by simp
  qed
  then have c: "fetchError (loadRates net_down [2, 1, 0] [] 9 s0) = Some fallback_message"
    by simp
  have "fetchError (loadRates net_garbled [] [] 9 s0)
      = Some (case message (Thrown (Some (lit ''Unexpected token''))) of
                None \<Rightarrow> fallback_message
              | Some m \<Rightarrow> if m = [] then fallback_message else m)"
  proof (rule fetch_error_message[of net_garbled "[]" "[]" 9 s0 "[0]" 1 "[2]"
        "Thrown (Some (lit ''Unexpected token''))" 200,
        THEN conjunct2, THEN conjunct2, THEN conjunct1, THEN mp], intro conjI)
    show "\<forall>c. \<exists>r. net_garbled c = Resolves r" using 6 by blast
    show "[] @ [0..<length symbols] = [0] @ 1 # [2]" by (rule 3)
    show "1 < length symbols" by (simp add: l)
    show "net_garbled (symbols ! 1)
          = Resolves (Response 200 (Rejects (Thrown (Some (lit ''Unexpected token'')))))"
      by (rule 7)
    show "\<forall>k \<in> set [0]. k < length symbols \<longrightarrow> rejection (net_garbled (symbols ! k)) = None"
      by (simp add: symbols_def answers_def)
  qed
  then have d: "fetchError (loadRates net_garbled [] [] 9 s0) = Some (lit ''Unexpected token'')"
    by (simp add: lit_def)
  have e: "loadRates net_refused [] [] 9 s0 = loadRates net_ok [] [] 9 s0"
    by (rule fetch_error_message[of net_ok "[]" "[]" 9 s0 _ _ _ _ _ net_refused,
          THEN conjunct2, THEN conjunct2, THEN conjunct2, THEN conjunct2, THEN mp])
       (use 8 in blast)
  show ?thesis
    by (intro conjI allI) (rule 1 2 3 4 5 6 7 8 a b c d e)+
qed

text \<open>
  Claim C8 as stated names the message \<^verbatim>\<open>incomplete rates\<close>; the code sets another text.
  And a response with the status 500 is no failure of the lookup: when its body holds a
  rate, the fetch succeeds and stores that rate.
\<close>

theorem error_message_differs:
  "fetchError (loadRates net_partial [] [] 9 s0) = Some incomplete_message
   \<and> incomplete_message = lit ''Unvollst'' @ [228] @ lit ''ndige Kurse''
   \<and> fetchError (loadRates net_partial [] [] 9 s0) \<noteq> Some (lit ''incomplete rates'')
   \<and> net_refused AED = Resolves (Response 500 (Resolves (body_with (JNum (Fin (16801 / 4))))))
   \<and> \<not> ok (Response 500 (Resolves (body_with (JNum (Fin (16801 / 4))))))
   \<and> fetchError (loadRates net_refused [] [] 9 s0) = None
   \<and> idrPerAED (loadRates net_refused [] [] 9 s0) = lit ''4200''
   \<and> lastFetchedAt (loadRates net_refused [] [] 9 s0) = Some 9"
  unfolding run_refused run_partial by (simp add: incomplete_message_def lit_def ok_def)

lemma rate_of_Some_settled: "rate_of p = Some v \<Longrightarrow> rejection p = None"
  by (cases p rule: rejection_cases) auto

text \<open>
  Claim C7, as the code has it. When all three lookups settle with a body, \<^verbatim>\<open>loadRates\<close>
  succeeds exactly when each body has a number at \<^verbatim>\<open>rates.IDR\<close> that is not falsy (neither
  zero nor \<open>NaN\<close>); otherwise it fails with the message for incomplete rates and changes
  no rate text. A value that is no number, a missing value and the number zero all count
  as a missing rate.
\<close>

theorem lookup_provides_rate:
  assumes "\<And>c. rejection (fetch c) = None"
  shows "(fetchError (loadRates fetch order1 order2 now s) = None
            \<longleftrightarrow> (\<forall>c. \<exists>v. rate_of (fetch c) = Some v \<and> \<not> falsy v))
         \<and> (fetchError (loadRates fetch order1 order2 now s) \<noteq> None
            \<longrightarrow> fetchError (loadRates fetch order1 order2 now s) = Some incomplete_message
              \<and> idrPerSGD (loadRates fetch order1 order2 now s) = idrPerSGD s
              \<and> idrPerAED (loadRates fetch order1 order2 now s) = idrPerAED s
              \<and> idrPerEUR (loadRates fetch order1 order2 now s) = idrPerEUR s)"
proof -
  have all: "(\<forall>c. \<exists>v. rate_of (fetch c) = Some v \<and> \<not> falsy v)
             \<longleftrightarrow> \<not> (falsy_entry (rate_of (fetch SGD)) \<or> falsy_entry (rate_of (fetch AED))
                    \<or> falsy_entry (rate_of (fetch EUR)))"
  proof -
    have "(\<exists>v. rate_of (fetch c) = Some v \<and> \<not> falsy v) \<longleftrightarrow> \<not> falsy_entry (rate_of (fetch c))" for c
      by (cases "rate_of (fetch c)") auto
    moreover have "(\<forall>c. P c) \<longleftrightarrow> P SGD \<and> P AED \<and> P EUR" for P
      by (metis Currency.exhaust)
    ultimately show ?thesis by simp
  qed
  show ?thesis
    unfolding all loadRates_settled[of fetch order1 order2 now s, OF assms] by simp
qed

theorem lookup_provides_rate_witness:
  "(\<forall>c. rejection (net_ok c) = None) \<and> (\<forall>c. rejection (net_partial c) = None)
   \<and> rate_of (net_ok SGD) = Some (Fin (23999 / 2)) \<and> rate_of (net_ok AED) = Some (Fin (16801 / 4))
   \<and> rate_of (net_ok EUR) = Some (Fin 17000)
   \<and> fetchError (loadRates net_ok [] [] 9 s0) = None
   \<and> rate_of (net_partial AED) = None
   \<and> fetchError (loadRates net_partial [] [] 9 s0) = Some incomplete_message
   \<and> idrPerSGD (loadRates net_partial [] [] 9 s0) = lit ''12000''"
proof -
  have 1: "rejection (net_ok c) = None" for c by (cases c) (simp_all add: answers_def)
  have 2: "rejection (net_partial c) = None" for c by (cases c) (simp_all add: answers_def)
  have 3: "rate_of (net_ok SGD) = Some (Fin (23999 / 2))" "rate_of (net_ok AED) = Some (Fin (16801 / 4))"
    "rate_of (net_ok EUR) = Some (Fin 17000)" "rate_of (net_partial AED) = None"
    by (simp_all add: net_defs)
  have "\<exists>v. rate_of (net_ok c) = Some v \<and> \<not> falsy v" for c
    by (cases c) (simp_all add: net_defs falsy_def)
  then have 4: "fetchError (loadRates net_ok [] [] 9 s0) = None"
    using lookup_provides_rate[of net_ok "[]" "[]" 9 s0, OF 1] by blast
  have "\<not> (\<forall>c. \<exists>v. rate_of (net_partial c) = Some v \<and> \<not> falsy v)"
    using 3(4) by (metis option.distinct(1))
  then have 5: "fetchError (loadRates net_partial [] [] 9 s0) = Some incomplete_message
     \<and> idrPerSGD (loadRates net_partial [] [] 9 s0) = idrPerSGD s0"
    using lookup_provides_rate[of net_partial "[]" "[]" 9 s0, OF 2] by blast
  have 6: "idrPerSGD s0 = lit ''12000''" by (simp add: s0_def initial_state_def)
  show ?thesis using 1 2 3 4 5 6 by simp
qed

text \<open>
  Claim C7 as stated fails for the number zero: the body for SGD holds a numeric rate, all
  three bodies do, and yet the fetch fails as incomplete (\<^verbatim>\<open>!map.SGD\<close> is true for \<open>0\<close>).
\<close>

theorem zero_rate_is_absent:
  "rate_of (net_zero SGD) = Some (Fin 0) \<and> rate_of (net_zero AED) = Some (Fin 4200)
   \<and> rate_of (net_zero EUR) = Some (Fin 17000)
   \<and> fetchError (loadRates net_zero [] [] 9 s0) = Some incomplete_message
   \<and> idrPerSGD (loadRates net_zero [] [] 9 s0) = lit ''12000''"
  unfolding run_zero by (simp add: net_defs s0_def initial_state_def)

text \<open>
  Claim C4, as the code has it. When all three lookups deliver a finite rate above zero,
  \<^verbatim>\<open>loadRates\<close> succeeds: each of the three rate texts is \<^verbatim>\<open>String(Math.round(rate))\<close>, the
  rounded rate is a non-negative integer, and the time of the fetch is recorded.
\<close>

theorem numeric_rates_rounded:
  assumes "\<And>c. rate_of (fetch c) = Some (Fin (v c))" and "\<And>c. 0 < v c"
  shows "fetchError (loadRates fetch order1 order2 now s) = None
         \<and> idrPerSGD (loadRates fetch order1 order2 now s) = js_String (Math_round (Fin (v SGD)))
         \<and> idrPerAED (loadRates fetch order1 order2 now s) = js_String (Math_round (Fin (v AED)))
         \<and> idrPerEUR (loadRates fetch order1 order2 now s) = js_String (Math_round (Fin (v EUR)))
         \<and> (\<forall>c. \<exists>n::nat. Math_round (Fin (v c)) = Fin (of_nat n))
         \<and> lastFetchedAt (loadRates fetch order1 order2 now s) = Some now
         \<and> \<not> fetching (loadRates fetch order1 order2 now s)"
proof -
  have none: "rejection (fetch c) = None" for c
    using assms(1)[of c] by (rule rate_of_Some_settled)
  have ok: "\<not> falsy_entry (rate_of (fetch c))" for c
    using assms(2)[of c] by (simp add: assms(1) falsy_def)
  have "\<exists>n::nat. Math_round (Fin (v c)) = Fin (of_nat n)" for c
  proof -
    have "0 \<le> \<lfloor>v c + 1 / 2\<rfloor>" using assms(2)[of c] by simp
    then have "Math_round (Fin (v c)) = Fin (of_nat (nat \<lfloor>v c + 1 / 2\<rfloor>))" by simp
    then show ?thesis by blast
  qed
  then show ?thesis
    unfolding loadRates_settled[of fetch order1 order2 now s, OF none]
    using ok by (simp add: assms(1) del: Math_round.simps js_String.simps)
qed

theorem numeric_rates_rounded_witness:
  "rate_of (net_ok SGD) = Some (Fin (23999 / 2)) \<and> rate_of (net_ok AED) = Some (Fin (16801 / 4))
   \<and> rate_of (net_ok EUR) = Some (Fin 17000)
   \<and> fetchError (loadRates net_ok [] [] 9 s0) = None
   \<and> idrPerSGD (loadRates net_ok [] [] 9 s0) = lit ''12000''
   \<and> idrPerAED (loadRates net_ok [] [] 9 s0) = lit ''4200''
   \<and> idrPerEUR (loadRates net_ok [] [] 9 s0) = lit ''17000''
   \<and> lastFetchedAt (loadRates net_ok [] [] 9 s0) = Some 9"
proof -
  define v :: "Currency \<Rightarrow> rat" where
    "v = (\<lambda>c. case c of SGD \<Rightarrow> 23999 / 2 | AED \<Rightarrow> 16801 / 4 | EUR \<Rightarrow> 17000)"
  have 1: "rate_of (net_ok c) = Some (Fin (v c))" for c
    by (cases c) (simp_all add: net_defs v_def)
  have 2: "0 < v c" for c by (cases c) (simp_all add: v_def)
  have r: "Math_round (Fin (v SGD)) = Fin 12000" "Math_round (Fin (v AED)) = Fin 4200"
    "Math_round (Fin (v EUR)) = Fin 17000"
    by (simp_all add: v_def floor_numeral_div)
  have "fetchError (loadRates net_ok [] [] 9 s0) = None
     \<and> idrPerSGD (loadRates net_ok [] [] 9 s0) = js_String (Fin 12000)
     \<and> idrPerAED (loadRates net_ok [] [] 9 s0) = js_String (Fin 4200)
     \<and> idrPerEUR (loadRates net_ok [] [] 9 s0) = js_String (Fin 17000)
     \<and> lastFetchedAt (loadRates net_ok [] [] 9 s0) = Some 9"
    using numeric_rates_rounded[of net_ok v "[]" "[]" 9 s0, OF 1 2] unfolding r by blast
  then show ?thesis
    unfolding js_String_12000 js_String_4200 js_String_17000 using 1[of SGD] 1[of AED] 1[of EUR]
    by (simp add: v_def)
qed

text \<open>
  Claim C4 as stated asks for numeric rates only. With a negative rate the fetch succeeds
  and stores a negative entry (\<^verbatim>\<open>Math.round(-3.5)\<close> is \<open>-3\<close>); with a rate of zero it fails and
  records no time.
\<close>

theorem numeric_rates_not_enough:
  "rate_of (net_negative SGD) = Some (Fin (- 7 / 2)) \<and> rate_of (net_negative AED) = Some (Fin 4200)
   \<and> rate_of (net_negative EUR) = Some (Fin 17000)
   \<and> fetchError (loadRates net_negative [] [] 9 s0) = None
   \<and> idrPerSGD (loadRates net_negative [] [] 9 s0) = lit ''-3''
   \<and> rate_of (net_zero SGD) = Some (Fin 0) \<and> rate_of (net_zero AED) = Some (Fin 4200)
   \<and> rate_of (net_zero EUR) = Some (Fin 17000)
   \<and> fetchError (loadRates net_zero [] [] 9 s0) = Some incomplete_message
   \<and> lastFetchedAt (loadRates net_zero [] [] 9 s0) = None"
  unfolding run_negative run_zero by (simp add: net_defs s0_def initial_state_def)

end
